theory Spec2Isabelle
  imports Main
begin

section \<open>The route-file loader of koa.router (src/index.js)\<close>

text \<open>
  The repository is one asynchronous function, the default export of \<^verbatim>\<open>src/index.js\<close>
  (called \<^verbatim>\<open>loadRouters\<close> by its test file). It resolves a directory, lists it
  recursively, filters the entries by extension and by ignore patterns, imports every
  remaining file, validates the imported descriptor, rewrites its \<^verbatim>\<open>path\<close> and
  registers it on a fresh router.

  The function is glue between four collaborators that are not part of the repository:
  \<^verbatim>\<open>node:path\<close>, \<^verbatim>\<open>node:fs/promises\<close>, the dynamic \<^verbatim>\<open>import()\<close> of the host and
  \<^verbatim>\<open>@koa/router\<close>. The embedding treats them as follows.
  \<^item> \<^verbatim>\<open>node:path\<close> is modelled in its POSIX variant (\<^verbatim>\<open>path.posix\<close>): \<open>/\<close> is the only
    separator, a backslash is an ordinary character.
  \<^item> The file system, the module loader and the router's \<^verbatim>\<open>register\<close> are fields of
    an environment record: what \<^verbatim>\<open>fs.access\<close> answers, what \<^verbatim>\<open>fs.readdir\<close>
    lists, what \<^verbatim>\<open>import(file)\<close> yields or throws, and whether \<^verbatim>\<open>register\<close> throws.
  \<^item> Exported descriptor objects live in an explicit store, because the loader assigns
    to \<^verbatim>\<open>pkg.path\<close> and the host caches modules: a second \<^verbatim>\<open>import\<close> of the same file
    yields the same object.
  \<^item> \<^verbatim>\<open>await\<close> is sequential composition; the loader is single threaded.
\<close>

subsection \<open>Strings and characters\<close>

definition slash :: char where
  "slash = CHR ''/''"

definition dot :: char where
  "dot = CHR ''.''"

definition backslash :: char where
  "backslash = CHR 0x5C"

text \<open>\<^verbatim>\<open>parts.join('/')\<close> of JavaScript arrays.\<close>

fun join_with_slash :: "string list \<Rightarrow> string" where
  "join_with_slash [] = []"
| "join_with_slash [s] = s"
| "join_with_slash (s # t # ss) = s @ slash # join_with_slash (t # ss)"

text \<open>Splitting at every \<open>/\<close>; empty pieces are kept, so the result is never empty.\<close>

fun split_slash :: "string \<Rightarrow> string list" where
  "split_slash [] = [[]]"
| "split_slash (c # cs) =
     (if c = slash then [] # split_slash cs
      else (case split_slash cs of
              [] \<Rightarrow> [[c]]
            | s # ss \<Rightarrow> (c # s) # ss))"

text \<open>\<^verbatim>\<open>s.startsWith('/')\<close>.\<close>

fun startsWith_slash :: "string \<Rightarrow> bool" where
  "startsWith_slash [] = False"
| "startsWith_slash (c # cs) = (c = slash)"

text \<open>\<^verbatim>\<open>s.replaceAll('\\', '/')\<close>: every backslash becomes a slash.\<close>

definition replaceAll_backslash :: "string \<Rightarrow> string" where
  "replaceAll_backslash s = map (\<lambda>c. if c = backslash then slash else c) s"

subsection \<open>\<^verbatim>\<open>node:path\<close>, POSIX variant\<close>

text \<open>\<^verbatim>\<open>path.isAbsolute(p)\<close>: \<^verbatim>\<open>p.length > 0 && p.charCodeAt(0) === 47\<close>.\<close>

definition isAbsolute :: "string \<Rightarrow> bool" where
  "isAbsolute p = startsWith_slash p"

text \<open>
  Node's \<^verbatim>\<open>normalizeString(path, allowAboveRoot)\<close> walks the path once and keeps a
  result string of segments joined by \<open>/\<close>. Read segment by segment it does this: an empty
  segment and \<open>.\<close> are dropped; \<open>..\<close> removes the last kept segment, unless there is none or
  it is \<open>..\<close> itself, in which case \<open>..\<close> is kept when \<^verbatim>\<open>allowAboveRoot\<close> holds and dropped
  otherwise; every other segment is kept. The kept segments are held newest first.
\<close>

definition normalize_step :: "bool \<Rightarrow> string list \<Rightarrow> string \<Rightarrow> string list" where
  "normalize_step allowAboveRoot kept seg =
     (if seg = [] \<or> seg = [dot] then kept
      else if seg = [dot, dot] then
        (case kept of
           [] \<Rightarrow> if allowAboveRoot then [[dot, dot]] else []
         | t # ts \<Rightarrow>
             if t = [dot, dot] then (if allowAboveRoot then [dot, dot] # kept else kept)
             else ts)
      else seg # kept)"

definition normalizeString :: "string \<Rightarrow> bool \<Rightarrow> string" where
  "normalizeString p allowAboveRoot =
     join_with_slash (rev (foldl (normalize_step allowAboveRoot) [] (split_slash p)))"

text \<open>\<^verbatim>\<open>path.normalize(p)\<close>.\<close>

definition normalize :: "string \<Rightarrow> string" where
  "normalize p =
     (if p = [] then [dot]
      else
        let isAbs = startsWith_slash p;
            trailingSeparator = (last p = slash);
            q = normalizeString p (\<not> isAbs)
        in if q = [] then (if isAbs then [slash] else if trailingSeparator then [dot, slash] else [dot])
           else (if isAbs then [slash] else []) @ q @ (if trailingSeparator then [slash] else []))"

text \<open>\<^verbatim>\<open>path.join(...args)\<close>: the non-empty arguments joined by \<open>/\<close>, then normalised.\<close>

definition join :: "string list \<Rightarrow> string" where
  "join args =
     (let parts = filter (\<lambda>a. a \<noteq> []) args
      in if parts = [] then [dot] else normalize (join_with_slash parts))"

text \<open>
  \<^verbatim>\<open>path.dirname(p)\<close>. Node scans from the last index down to index 1 for the first
  \<open>/\<close> that follows (going left) a character other than \<open>/\<close>:
  \<^verbatim>\<open>
    for (let i = path.length - 1; i >= 1; --i) {
      if (path.charCodeAt(i) === 47) { if (!matchedSlash) { end = i; break; } }
      else matchedSlash = false;
    }
    if (end === -1) return hasRoot ? '/' : '.';
    if (hasRoot && end === 1) return '//';
    return path.slice(0, end);
  \<close>
  \<open>dirname_scan\<close> takes the characters at indices \<open>1..\<close> in reverse and returns, reversed,
  the characters at indices \<open>1..end-1\<close>.
\<close>

fun dirname_scan :: "string \<Rightarrow> bool \<Rightarrow> string option" where
  "dirname_scan [] matchedSlash = None"
| "dirname_scan (c # cs) matchedSlash =
     (if c = slash then (if \<not> matchedSlash then Some cs else dirname_scan cs matchedSlash)
      else dirname_scan cs False)"

definition dirname :: "string \<Rightarrow> string" where
  "dirname p =
     (case p of
        [] \<Rightarrow> [dot]
      | h # t \<Rightarrow>
          (case dirname_scan (rev t) True of
             None \<Rightarrow> if h = slash then [slash] else [dot]
           | Some r \<Rightarrow> if h = slash \<and> r = [] then [slash, slash] else h # rev r))"

text \<open>
  \<^verbatim>\<open>path.extname(p)\<close>. Node scans from the right:
  \<^verbatim>\<open>
    for (let i = path.length - 1; i >= 0; --i) {
      const code = path.charCodeAt(i);
      if (code === 47) { if (!matchedSlash) { startPart = i + 1; break; } continue; }
      if (end === -1) { matchedSlash = false; end = i + 1; }
      if (code === 46) {
        if (startDot === -1) startDot = i;
        else if (preDotState !== 1) preDotState = 1;
      } else if (startDot !== -1) preDotState = -1;
    }
    if (startDot === -1 || end === -1 || preDotState === 0 ||
        (preDotState === 1 && startDot === end - 1 && startDot === startPart + 1))
      return '';
    return path.slice(startDot, end);
  \<close>
  \<open>extname_scan\<close> takes the characters not yet visited in reverse (its head is index
  \<open>i\<close>) and returns \<open>(startDot, startPart, end, preDotState)\<close>.
\<close>

fun extname_scan :: "string \<Rightarrow> int \<Rightarrow> int \<Rightarrow> bool \<Rightarrow> int \<Rightarrow> int \<times> int \<times> int \<times> int" where
  "extname_scan [] startDot end' matchedSlash preDotState = (startDot, 0, end', preDotState)"
| "extname_scan (c # cs) startDot end' matchedSlash preDotState =
     (let i = int (length cs) in
      if c = slash then
        (if \<not> matchedSlash then (startDot, i + 1, end', preDotState)
         else extname_scan cs startDot end' matchedSlash preDotState)
      else
        let matchedSlash2 = (if end' = -1 then False else matchedSlash);
            end2 = (if end' = -1 then i + 1 else end')
        in if c = dot then
             (if startDot = -1 then extname_scan cs i end2 matchedSlash2 preDotState
              else if preDotState \<noteq> 1 then extname_scan cs startDot end2 matchedSlash2 1
              else extname_scan cs startDot end2 matchedSlash2 preDotState)
           else if startDot \<noteq> -1 then extname_scan cs startDot end2 matchedSlash2 (-1)
           else extname_scan cs startDot end2 matchedSlash2 preDotState)"

definition extname :: "string \<Rightarrow> string" where
  "extname p =
     (case extname_scan (rev p) (-1) (-1) True 0 of
        (startDot, startPart, end', preDotState) \<Rightarrow>
          if startDot = -1 \<or> end' = -1 \<or> preDotState = 0 \<or>
             (preDotState = 1 \<and> startDot = end' - 1 \<and> startDot = startPart + 1)
          then []
          else take (nat (end' - startDot)) (drop (nat startDot) p))"

text \<open>
  \<^verbatim>\<open>path.resolve(p)\<close> with one argument, given the working directory: a relative
  \<open>p\<close> is put after \<open>cwd\<close>, the result is normalised and has no trailing slash.
\<close>

definition resolve :: "string \<Rightarrow> string \<Rightarrow> string" where
  "resolve cwd p =
     (let r1 = (if p = [] then [] else p @ [slash]);
          abs1 = isAbsolute p;
          r2 = (if abs1 \<or> cwd = [] then r1 else cwd @ slash # r1);
          abs2 = (abs1 \<or> isAbsolute cwd);
          q = normalizeString r2 (\<not> abs2)
      in if abs2 then slash # q else if q = [] then [dot] else q)"

text \<open>
  \<^verbatim>\<open>path.relative(from, to)\<close>: both paths are resolved; the common leading segments
  are dropped; the answer climbs out of what is left of \<open>from\<close> with one \<open>..\<close> per
  segment and then descends along what is left of \<open>to\<close>.
\<close>

fun drop_common :: "string list \<Rightarrow> string list \<Rightarrow> string list \<times> string list" where
  "drop_common (x # xs) (y # ys) = (if x = y then drop_common xs ys else (x # xs, y # ys))"
| "drop_common xs ys = (xs, ys)"

definition segments :: "string \<Rightarrow> string list" where
  "segments p = filter (\<lambda>s. s \<noteq> []) (split_slash p)"

definition relative :: "string \<Rightarrow> string \<Rightarrow> string \<Rightarrow> string" where
  "relative cwd from to =
     (if from = to then []
      else
        let f = resolve cwd from; t = resolve cwd to
        in if f = t then []
           else (case drop_common (segments f) (segments t) of
                   (fs, ts) \<Rightarrow> join_with_slash (replicate (length fs) [dot, dot] @ ts)))"

subsection \<open>JavaScript values and the object store\<close>

text \<open>
  The values a route module can export and a descriptor can hold. Numbers are kept as
  integers plus \<open>NaN\<close>: the loader only asks whether a number is truthy. A plain object
  is a reference into the store; functions and arrays are values here, the loader never
  writes to them.
\<close>

datatype jsval =
    Undefined
  | Null
  | Bool bool
  | Num int
  | NaN
  | Str string
  | Arr "jsval list"
  | Fun nat
  | Obj nat

text \<open>JavaScript's \<^verbatim>\<open>ToBoolean\<close>, the test behind \<^verbatim>\<open>!x\<close>.\<close>

fun truthy :: "jsval \<Rightarrow> bool" where
  "truthy Undefined = False"
| "truthy Null = False"
| "truthy (Bool b) = b"
| "truthy (Num n) = (n \<noteq> 0)"
| "truthy NaN = False"
| "truthy (Str s) = (s \<noteq> [])"
| "truthy (Arr xs) = True"
| "truthy (Fun f) = True"
| "truthy (Obj a) = True"

text \<open>
  An object of the store, reduced to the three properties the loader reads. A property the
  object does not have reads as \<open>Undefined\<close>. \<open>o_frozen\<close> says that \<^verbatim>\<open>path\<close> cannot be
  assigned (\<^verbatim>\<open>Object.freeze\<close>, a read-only property): \<^verbatim>\<open>src/index.js\<close> is an ES module,
  so it runs in strict mode, where such an assignment throws a \<^verbatim>\<open>TypeError\<close>.
\<close>

record jsobj =
  o_path :: jsval
  o_methods :: jsval
  o_handlers :: jsval
  o_frozen :: bool

type_synonym heap = "nat \<Rightarrow> jsobj"

text \<open>\<^verbatim>\<open>pkg.path\<close>, \<^verbatim>\<open>pkg.methods\<close>, \<^verbatim>\<open>pkg.handlers\<close> for a truthy \<^verbatim>\<open>pkg\<close>: only an
  object of the store has these properties.\<close>

fun get_prop :: "heap \<Rightarrow> jsval \<Rightarrow> (jsobj \<Rightarrow> jsval) \<Rightarrow> jsval" where
  "get_prop h (Obj a) field = field (h a)"
| "get_prop h v field = Undefined"

text \<open>
  What is thrown: \<^verbatim>\<open>null\<close> or \<^verbatim>\<open>undefined\<close>; a value whose \<^verbatim>\<open>message\<close> property cannot
  be read because reading it throws (an accessor, a proxy); or any other value, of which
  only the text of its \<^verbatim>\<open>message\<close> property is kept.
\<close>

datatype thrown = ThrownNullish | ThrownUnreadable | ThrownError string

text \<open>\<^verbatim>\<open>pkg.path = v\<close> in strict mode.\<close>

fun set_path :: "heap \<Rightarrow> jsval \<Rightarrow> jsval \<Rightarrow> thrown + heap" where
  "set_path h (Obj a) v =
     (if o_frozen (h a) then Inl (ThrownError ''TypeError: Cannot assign to read only property'')
      else Inr (h(a := (h a)\<lparr>o_path := v\<rparr>)))"
| "set_path h w v = Inl (ThrownError ''TypeError: Cannot create property'')"

text \<open>The spread \<^verbatim>\<open>...pkg.handlers\<close>: an array gives its elements, a string its
  characters, every other value of the model is not iterable.\<close>

fun spread :: "jsval \<Rightarrow> thrown + jsval list" where
  "spread (Arr xs) = Inr xs"
| "spread (Str s) = Inr (map (\<lambda>c. Str [c]) s)"
| "spread v = Inl (ThrownError ''TypeError: not iterable'')"

subsection \<open>Regular expressions\<close>

text \<open>
  A \<^verbatim>\<open>RegExp\<close> object. \<open>rx_exec s i\<close> is the matcher itself: the end index of the first
  match of the pattern in \<open>s\<close> that starts at index \<open>i\<close> or later (for a sticky pattern:
  at \<open>i\<close>), or \<open>None\<close>. \<open>rx_stateful\<close> is set for a pattern with the \<^verbatim>\<open>g\<close> or \<^verbatim>\<open>y\<close> flag;
  \<^verbatim>\<open>test\<close> then starts at \<^verbatim>\<open>lastIndex\<close> and stores where it stopped.
\<close>

record regexp =
  rx_exec :: "string \<Rightarrow> nat \<Rightarrow> nat option"
  rx_stateful :: bool
  rx_lastIndex :: nat

text \<open>\<^verbatim>\<open>pattern.test(s)\<close>: the answer and the pattern object afterwards.\<close>

definition rx_test :: "regexp \<Rightarrow> string \<Rightarrow> bool \<times> regexp" where
  "rx_test r s =
     (if rx_stateful r then
        (if rx_lastIndex r > length s then (False, r\<lparr>rx_lastIndex := 0\<rparr>)
         else (case rx_exec r s (rx_lastIndex r) of
                 None \<Rightarrow> (False, r\<lparr>rx_lastIndex := 0\<rparr>)
               | Some e \<Rightarrow> (True, r\<lparr>rx_lastIndex := e\<rparr>)))
      else (rx_exec r s 0 \<noteq> None, r))"

text \<open>\<^verbatim>\<open>ignorePatterns.some((pattern) => pattern.test(file))\<close>: stops at the first
  pattern that answers true.\<close>

fun some_test :: "regexp list \<Rightarrow> string \<Rightarrow> bool \<times> regexp list" where
  "some_test [] file = (False, [])"
| "some_test (r # rs) file =
     (case rx_test r file of
        (True, r') \<Rightarrow> (True, r' # rs)
      | (False, r') \<Rightarrow> (case some_test rs file of (b, rs') \<Rightarrow> (b, r' # rs')))"

text \<open>\<^verbatim>\<open>files.filter((file) => !ignorePatterns.some(...))\<close>, left to right.\<close>

fun ignore_filter :: "regexp list \<Rightarrow> string list \<Rightarrow> string list \<times> regexp list" where
  "ignore_filter ps [] = ([], ps)"
| "ignore_filter ps (file # files) =
     (case some_test ps file of
        (b, ps') \<Rightarrow>
          (case ignore_filter ps' files of
             (kept, ps'') \<Rightarrow> (if b then kept else file # kept, ps'')))"

subsection \<open>The environment\<close>

text \<open>A \<^verbatim>\<open>Dirent\<close> of \<^verbatim>\<open>fs.readdir(dir, {withFileTypes: true, recursive: true})\<close>.\<close>

datatype dirent_type =
  RegularFile | Directory | SymbolicLink | Fifo | Socket | CharDevice | BlockDevice | Unknown

record dirent =
  d_name :: string
  d_parentPath :: string
  d_type :: dirent_type

text \<open>\<^verbatim>\<open>p.isFile()\<close>.\<close>

definition isFile :: "dirent \<Rightarrow> bool" where
  "isFile p = (d_type p = RegularFile)"

text \<open>
  \<^item> \<open>cwd\<close>: \<^verbatim>\<open>process.cwd()\<close>;
  \<^item> \<open>fs_access p\<close>: \<^verbatim>\<open>await fs.access(p)\<close> does not throw. Line 59 passes no mode, so
    the call tests with \<^verbatim>\<open>F_OK\<close> that \<open>p\<close> exists, not that it can be read;
  \<^item> \<open>fs_readdir p\<close>: the entries \<^verbatim>\<open>fs.readdir\<close> lists under \<open>p\<close>, in its order, or the
    message of the error it rejects with (\<open>p\<close> or a directory below it cannot be read,
    \<open>p\<close> is not a directory);
  \<^item> \<open>import_default file\<close>: the \<^verbatim>\<open>default\<close> export of \<^verbatim>\<open>await import(file)\<close>
    (\<open>Undefined\<close> when the module has none), or what the import throws. The host caches
    modules, so the answer for a file is the same at every call;
  \<^item> \<open>register_throws path methods handlers\<close>: what
    \<^verbatim>\<open>router.register(path, methods, ...handlers)\<close> throws, \<open>None\<close> when it returns.
\<close>

record env =
  cwd :: string
  fs_access :: "string \<Rightarrow> bool"
  fs_readdir :: "string \<Rightarrow> string + dirent list"
  import_default :: "string \<Rightarrow> thrown + jsval"
  register_throws :: "string \<Rightarrow> jsval \<Rightarrow> jsval list \<Rightarrow> thrown option"

text \<open>The \<^verbatim>\<open>options\<close> argument; a property left out is \<open>None\<close>.\<close>

record options =
  opt_prefix :: "string option"
  opt_fileExtensions :: "string list option"
  opt_ignorePatterns :: "regexp list option"

text \<open>\<^verbatim>\<open>const { prefix = '', fileExtensions = ['.js', '.ts'], ignorePatterns = [] } = options\<close>.\<close>

definition prefix_of :: "options \<Rightarrow> string" where
  "prefix_of opts = (case opt_prefix opts of None \<Rightarrow> [] | Some p \<Rightarrow> p)"

definition fileExtensions_of :: "options \<Rightarrow> string list" where
  "fileExtensions_of opts =
     (case opt_fileExtensions opts of None \<Rightarrow> [''.js'', ''.ts''] | Some es \<Rightarrow> es)"

definition ignorePatterns_of :: "options \<Rightarrow> regexp list" where
  "ignorePatterns_of opts = (case opt_ignorePatterns opts of None \<Rightarrow> [] | Some ps \<Rightarrow> ps)"

subsection \<open>The loader\<close>

text \<open>An entry of the router's stack, as \<^verbatim>\<open>register\<close> received it.\<close>

record registration =
  reg_path :: string
  reg_methods :: jsval
  reg_handlers :: "jsval list"

text \<open>
  What the loader does, in order: the calls to the file system and the module loader, the
  two warnings, and the registrations. \<open>Registered file declared final\<close> records that
  \<open>file\<close> was registered under \<open>final\<close> after its descriptor's \<^verbatim>\<open>path\<close> read \<open>declared\<close>.
\<close>

datatype event =
    Access string
  | Readdir string
  | Import string
  | WarnInvalid string
  | WarnFailed string string
  | Registered string string string

text \<open>The errors the returned promise can reject with.\<close>

datatype fatal =
    DirectoryNotFound string
  | ReaddirFailed string
  | CatchClauseFailed string

text \<open>The state of one invocation inside the loop.\<close>

record run =
  heap_of :: heap
  router_of :: "registration list"
  log_of :: "event list"

text \<open>
  \<^verbatim>\<open>const absolute_path = path.isAbsolute(routers_dir) ? routers_dir
      : path.join(process.cwd(), routers_dir)\<close>
\<close>

definition absolute_path :: "env \<Rightarrow> string \<Rightarrow> string" where
  "absolute_path e routers_dir =
     (if isAbsolute routers_dir then routers_dir else join [cwd e, routers_dir])"

text \<open>Lines 80 to 82: the path a descriptor is registered under.\<close>

definition route_path :: "env \<Rightarrow> string \<Rightarrow> string \<Rightarrow> string \<Rightarrow> string \<Rightarrow> string" where
  "route_path e prefix root file declared =
     (let p1 = join [prefix, relative (cwd e) root (dirname file), declared];
          p2 = replaceAll_backslash p1
      in if startsWith_slash p2 then p2 else slash # p2)"

text \<open>
  The body of the \<^verbatim>\<open>try\<close> block (lines 74 to 83) for one file. \<open>Inl\<close> is a throw, with the
  state reached when it happened; \<open>Inr\<close> is normal completion, the \<^verbatim>\<open>continue\<close> of line 77
  included. The three assignments to \<^verbatim>\<open>pkg.path\<close> are one store update: only the first
  can throw, and nothing reads the store between them.
\<close>

definition try_block :: "env \<Rightarrow> string \<Rightarrow> string \<Rightarrow> run \<Rightarrow> string \<Rightarrow> (thrown \<times> run) + run" where
  "try_block e prefix root st file =
     (case import_default e file of
        Inl ex \<Rightarrow> Inl (ex, st)
      | Inr pkg \<Rightarrow>
          let h = heap_of st in
          if \<not> truthy pkg \<or> \<not> truthy (get_prop h pkg o_path) \<or>
             \<not> truthy (get_prop h pkg o_methods) \<or> \<not> truthy (get_prop h pkg o_handlers)
          then Inr (st\<lparr>log_of := log_of st @ [WarnInvalid file]\<rparr>)
          else
            (case get_prop h pkg o_path of
               Str declared \<Rightarrow>
                 let p = route_path e prefix root file declared in
                 (case set_path h pkg (Str p) of
                    Inl ex \<Rightarrow> Inl (ex, st)
                  | Inr h' \<Rightarrow>
                      let st1 = st\<lparr>heap_of := h'\<rparr> in
                      (case spread (get_prop h' pkg o_handlers) of
                         Inl ex \<Rightarrow> Inl (ex, st1)
                       | Inr hs \<Rightarrow>
                           (case register_throws e p (get_prop h' pkg o_methods) hs of
                              Some ex \<Rightarrow> Inl (ex, st1)
                            | None \<Rightarrow>
                                Inr (st1\<lparr>router_of := router_of st1 @
                                            [\<lparr>reg_path = p,
                                              reg_methods = get_prop h' pkg o_methods,
                                              reg_handlers = hs\<rparr>],
                                          log_of := log_of st1 @ [Registered file declared p]\<rparr>))))
             | v \<Rightarrow> Inl (ThrownError ''TypeError: The path argument must be of type string'', st)))"

text \<open>
  The \<^verbatim>\<open>catch\<close> clause (lines 84 to 87): \<^verbatim>\<open>console.warn(..., error.message)\<close> reads a
  property of what was thrown. That read itself throws when the value is \<^verbatim>\<open>null\<close> or
  \<^verbatim>\<open>undefined\<close> (a \<^verbatim>\<open>TypeError\<close>) or when the property cannot be read; nothing catches
  that throw.
\<close>

definition catch_clause :: "run \<Rightarrow> string \<Rightarrow> thrown \<Rightarrow> fatal option \<times> run" where
  "catch_clause st file ex =
     (case ex of
        ThrownNullish \<Rightarrow> (Some (CatchClauseFailed file), st)
      | ThrownUnreadable \<Rightarrow> (Some (CatchClauseFailed file), st)
      | ThrownError msg \<Rightarrow> (None, st\<lparr>log_of := log_of st @ [WarnFailed file msg]\<rparr>))"

text \<open>One iteration of the loop of line 72.\<close>

definition process_file :: "env \<Rightarrow> string \<Rightarrow> string \<Rightarrow> run \<Rightarrow> string \<Rightarrow> fatal option \<times> run" where
  "process_file e prefix root st file =
     (case try_block e prefix root (st\<lparr>log_of := log_of st @ [Import file]\<rparr>) file of
        Inr st' \<Rightarrow> (None, st')
      | Inl (ex, st') \<Rightarrow> catch_clause st' file ex)"

text \<open>The loop: it ends early only when an iteration lets an error escape.\<close>

fun process_files :: "env \<Rightarrow> string \<Rightarrow> string \<Rightarrow> run \<Rightarrow> string list \<Rightarrow> fatal option \<times> run" where
  "process_files e prefix root st [] = (None, st)"
| "process_files e prefix root st (file # files) =
     (case process_file e prefix root st file of
        (Some err, st') \<Rightarrow> (Some err, st')
      | (None, st') \<Rightarrow> process_files e prefix root st' files)"

text \<open>Lines 64 to 66: the files kept by type and extension, as full paths.\<close>

definition discovered :: "string list \<Rightarrow> dirent list \<Rightarrow> string list" where
  "discovered exts ents =
     map (\<lambda>p. join [d_parentPath p, d_name p])
       (filter (\<lambda>p. isFile p \<and> extname (d_name p) \<in> set exts) ents)"

text \<open>
  What one invocation leaves behind: the router or the error, the object store and the
  pattern objects as the invocation left them, and the log.
\<close>

record outcome =
  result :: "fatal + registration list"
  heap_after :: heap
  patterns_after :: "regexp list"
  events :: "event list"

text \<open>The exported function, lines 52 to 91.\<close>

definition loadRouters :: "env \<Rightarrow> heap \<Rightarrow> string \<Rightarrow> options \<Rightarrow> outcome" where
  "loadRouters e h routers_dir opts =
     (let prefix = prefix_of opts;
          fileExtensions = fileExtensions_of opts;
          ignorePatterns = ignorePatterns_of opts;
          root = absolute_path e routers_dir
      in if \<not> fs_access e root then
           \<lparr>result = Inl (DirectoryNotFound root), heap_after = h,
            patterns_after = ignorePatterns, events = [Access root]\<rparr>
         else
           (case fs_readdir e root of
              Inl msg \<Rightarrow>
                \<lparr>result = Inl (ReaddirFailed msg), heap_after = h,
                 patterns_after = ignorePatterns, events = [Access root, Readdir root]\<rparr>
            | Inr ents \<Rightarrow>
                (case ignore_filter ignorePatterns (discovered fileExtensions ents) of
                   (filteredFiles, ps) \<Rightarrow>
                     (case process_files e prefix root
                             \<lparr>heap_of = h, router_of = [], log_of = [Access root, Readdir root]\<rparr>
                             filteredFiles of
                        (Some err, st) \<Rightarrow>
                          \<lparr>result = Inl err, heap_after = heap_of st,
                           patterns_after = ps, events = log_of st\<rparr>
                      | (None, st) \<Rightarrow>
                          \<lparr>result = Inr (router_of st), heap_after = heap_of st,
                           patterns_after = ps, events = log_of st\<rparr>))))"

subsection \<open>Notions the properties are stated with\<close>

text \<open>The test of line 75: the export, or one of its three properties, is falsy.\<close>

definition invalid_export :: "heap \<Rightarrow> jsval \<Rightarrow> bool" where
  "invalid_export h pkg =
     (\<not> truthy pkg \<or> \<not> truthy (get_prop h pkg o_path) \<or>
      \<not> truthy (get_prop h pkg o_methods) \<or> \<not> truthy (get_prop h pkg o_handlers))"

text \<open>The files and the paths of the registrations in a log, and the files imported.\<close>

fun registered_files :: "event list \<Rightarrow> string list" where
  "registered_files [] = []"
| "registered_files (Registered f d p # evs) = f # registered_files evs"
| "registered_files (ev # evs) = registered_files evs"

fun registered_paths :: "event list \<Rightarrow> string list" where
  "registered_paths [] = []"
| "registered_paths (Registered f d p # evs) = p # registered_paths evs"
| "registered_paths (ev # evs) = registered_paths evs"

fun imported_files :: "event list \<Rightarrow> string list" where
  "imported_files [] = []"
| "imported_files (Import f # evs) = f # imported_files evs"
| "imported_files (ev # evs) = imported_files evs"

text \<open>Line 68: the files left after both filters, in discovery order.\<close>

definition filteredFiles :: "options \<Rightarrow> dirent list \<Rightarrow> string list" where
  "filteredFiles opts ents =
     fst (ignore_filter (ignorePatterns_of opts) (discovered (fileExtensions_of opts) ents))"

text \<open>
  The route file contract: \<^verbatim>\<open>{ path: string, methods: string[], handlers: Handler[] }\<close>
  with all three present and non-empty.
\<close>

fun is_string :: "jsval \<Rightarrow> bool" where
  "is_string (Str s) = True"
| "is_string v = False"

fun is_function :: "jsval \<Rightarrow> bool" where
  "is_function (Fun k) = True"
| "is_function v = False"

definition valid_descriptor :: "jsobj \<Rightarrow> bool" where
  "valid_descriptor d =
     ((case o_path d of Str s \<Rightarrow> s \<noteq> [] | v \<Rightarrow> False) \<and>
      (case o_methods d of Arr ms \<Rightarrow> ms \<noteq> [] \<and> list_all is_string ms | v \<Rightarrow> False) \<and>
      (case o_handlers d of Arr hs \<Rightarrow> hs \<noteq> [] \<and> list_all is_function hs | v \<Rightarrow> False))"

text \<open>A path none of whose segments is \<open>.\<close> or \<open>..\<close>.\<close>

definition no_dot_segments :: "string \<Rightarrow> bool" where
  "no_dot_segments p = ([dot] \<notin> set (split_slash p) \<and> [dot, dot] \<notin> set (split_slash p))"

text \<open>The suffix of a name that starts at its last \<open>.\<close>; empty when the name has none.\<close>

fun last_dot_suffix :: "string \<Rightarrow> string" where
  "last_dot_suffix [] = []"
| "last_dot_suffix (c # cs) =
     (if dot \<in> set cs then last_dot_suffix cs else if c = dot then c # cs else [])"

text \<open>
  The extension of a file name as Node documents \<^verbatim>\<open>path.extname\<close>: from the last \<open>.\<close> to
  the end; empty when there is no \<open>.\<close>, when the only \<open>.\<close> is the first character of the
  name, and for the name \<open>..\<close>.
\<close>

definition name_extension :: "string \<Rightarrow> string" where
  "name_extension n =
     (if last_dot_suffix n = n \<or> n = [dot, dot] then [] else last_dot_suffix n)"

text \<open>A thrown value whose \<^verbatim>\<open>message\<close> the \<^verbatim>\<open>catch\<close> clause can read.\<close>

fun message_readable :: "thrown \<Rightarrow> bool" where
  "message_readable (ThrownError msg) = True"
| "message_readable ex = False"

text \<open>A pattern matches a string when its matcher finds a match from index 0.\<close>

definition rx_matches :: "regexp \<Rightarrow> string \<Rightarrow> bool" where
  "rx_matches r s = (rx_exec r s 0 \<noteq> None)"

subsection \<open>Example inputs\<close>

text \<open>
  The router of the examples. \<^verbatim>\<open>@koa/router\<close> is not part of the repository; this
  stand-in follows three checks that \<^verbatim>\<open>register\<close> makes when it builds a \<^verbatim>\<open>Layer\<close>, in
  their order: \<^verbatim>\<open>methods\<close> is iterated and every method upper-cased, so it is an array of
  strings or a string; the \<^verbatim>\<open>middleware\<close> argument, which the spread of line 83 fills with
  the first handler, is a function or an array of functions; the path is compiled, which
  fails for a wildcard without a name, as in \<open>/files/*\<close>.
\<close>

fun methods_iterate :: "jsval \<Rightarrow> bool" where
  "methods_iterate (Arr ms) = list_all is_string ms"
| "methods_iterate (Str s) = True"
| "methods_iterate v = False"

fun middleware_is_callable :: "jsval list \<Rightarrow> bool" where
  "middleware_is_callable [] = False"
| "middleware_is_callable (Fun k # hs) = True"
| "middleware_is_callable (Arr fs # hs) = list_all is_function fs"
| "middleware_is_callable (v # hs) = False"

fun unnamed_wildcard :: "string \<Rightarrow> bool" where
  "unnamed_wildcard [] = False"
| "unnamed_wildcard [c] = (c = CHR ''*'')"
| "unnamed_wildcard (c # d # cs) = ((c = CHR ''*'' \<and> d = slash) \<or> unnamed_wildcard (d # cs))"

definition layer_throws :: "string \<Rightarrow> jsval \<Rightarrow> jsval list \<Rightarrow> thrown option" where
  "layer_throws p m hs =
     (if \<not> methods_iterate m then Some (ThrownError ''TypeError: methods is not iterable'')
      else if \<not> middleware_is_callable hs then Some (ThrownError ''middleware must be a function'')
      else if unnamed_wildcard p then Some (ThrownError ''Missing parameter name'')
      else None)"

text \<open>
  A process with working directory \<open>/srv\<close> in which \<open>/srv/routes\<close> is the only path that
  exists; it is listed as \<open>ents\<close>, and \<open>imp\<close> is the module loader.
\<close>

definition example_env :: "dirent list \<Rightarrow> (string \<Rightarrow> thrown + jsval) \<Rightarrow> env" where
  "example_env ents imp =
     \<lparr>cwd = ''/srv'',
      fs_access = (\<lambda>p. p = ''/srv/routes''),
      fs_readdir = (\<lambda>p. if p = ''/srv/routes'' then Inr ents else Inl ''ENOTDIR''),
      import_default = imp,
      register_throws = layer_throws\<rparr>"

definition file_entry :: "string \<Rightarrow> string \<Rightarrow> dirent" where
  "file_entry dir name = \<lparr>d_name = name, d_parentPath = dir, d_type = RegularFile\<rparr>"

definition no_options :: options where
  "no_options = \<lparr>opt_prefix = None, opt_fileExtensions = None, opt_ignorePatterns = None\<rparr>"

definition api_options :: options where
  "api_options = \<lparr>opt_prefix = Some ''/api'', opt_fileExtensions = None, opt_ignorePatterns = None\<rparr>"

definition blank :: jsobj where
  "blank = \<lparr>o_path = Undefined, o_methods = Undefined, o_handlers = Undefined, o_frozen = False\<rparr>"

definition descriptor :: "jsval \<Rightarrow> jsval \<Rightarrow> jsval \<Rightarrow> jsobj" where
  "descriptor p m hs = \<lparr>o_path = p, o_methods = m, o_handlers = hs, o_frozen = False\<rparr>"

text \<open>A store whose object 0 is \<open>d\<close>; every other object has none of the three properties.\<close>

definition one_object :: "jsobj \<Rightarrow> heap" where
  "one_object d = (\<lambda>a. blank)(0 := d)"

text \<open>The test suite's \<^verbatim>\<open>user.login.js\<close>, alone in the directory, exporting object 0.\<close>

definition login_file :: string where
  "login_file = ''/srv/routes/user.login.js''"

definition login_env :: env where
  "login_env =
     example_env [file_entry ''/srv/routes'' ''user.login.js'']
       (\<lambda>f. if f = ''/srv/routes/user.login.js'' then Inr (Obj 0)
            else Inl (ThrownError ''Cannot find module''))"

definition login_heap :: heap where
  "login_heap = one_object (descriptor (Str ''/login'') (Arr [Str ''post'']) (Arr [Fun 0]))"

text \<open>The invocation once the directory is accessible and listed.\<close>

definition loop_start :: "env \<Rightarrow> heap \<Rightarrow> string \<Rightarrow> run" where
  "loop_start e h dir =
     \<lparr>heap_of = h, router_of = [],
      log_of = [Access (absolute_path e dir), Readdir (absolute_path e dir)]\<rparr>"

definition loop_end :: "env \<Rightarrow> heap \<Rightarrow> string \<Rightarrow> options \<Rightarrow> dirent list \<Rightarrow> fatal option \<times> run" where
  "loop_end e h dir opts ents =
     process_files e (prefix_of opts) (absolute_path e dir) (loop_start e h dir) (filteredFiles opts ents)"

text \<open>A directory whose first file throws \<^verbatim>\<open>null\<close> while it is evaluated; the second
  is the login route.\<close>

definition broken_file :: string where
  "broken_file = ''/srv/routes/broken.js''"

definition broken_env :: env where
  "broken_env =
     example_env [file_entry ''/srv/routes'' ''broken.js'', file_entry ''/srv/routes'' ''user.login.js'']
       (\<lambda>f. if f = ''/srv/routes/broken.js'' then Inl ThrownNullish
            else if f = ''/srv/routes/user.login.js'' then Inr (Obj 0)
            else Inl (ThrownError ''Cannot find module''))"

text \<open>The login route with an empty \<^verbatim>\<open>methods\<close> array.\<close>

definition no_methods_heap :: heap where
  "no_methods_heap = one_object (descriptor (Str ''/login'') (Arr []) (Arr [Fun 0]))"

text \<open>A module without a default export.\<close>

definition no_default_env :: env where
  "no_default_env =
     example_env [file_entry ''/srv/routes'' ''user.login.js''] (\<lambda>f. Inr Undefined)"

text \<open>
  The directory of the test suite, a little larger: the login route, a directory \<open>v1\<close>
  with a resource route in it, a file the ignore pattern \<^verbatim>\<open>/\.test\.js$/\<close> matches and a
  file with another extension. Objects 0, 1 and 2 are the three descriptors.
\<close>

definition ends_with_test_js :: regexp where
  "ends_with_test_js =
     \<lparr>rx_exec = (\<lambda>s i. if 8 \<le> length s \<and> i \<le> length s - 8 \<and> drop (length s - 8) s = ''.test.js''
                        then Some (length s) else None),
      rx_stateful = False,
      rx_lastIndex = 0\<rparr>"

definition suite_options :: options where
  "suite_options =
     \<lparr>opt_prefix = None, opt_fileExtensions = None, opt_ignorePatterns = Some [ends_with_test_js]\<rparr>"

definition suite_entries :: "dirent list" where
  "suite_entries =
     [file_entry ''/srv/routes'' ''user.login.js'',
      \<lparr>d_name = ''v1'', d_parentPath = ''/srv/routes'', d_type = Directory\<rparr>,
      file_entry ''/srv/routes/v1'' ''resource.get.js'',
      file_entry ''/srv/routes'' ''ignore.test.js'',
      file_entry ''/srv/routes'' ''README.md'']"

definition suite_env :: env where
  "suite_env =
     example_env suite_entries
       (\<lambda>f. if f = ''/srv/routes/user.login.js'' then Inr (Obj 0)
            else if f = ''/srv/routes/v1/resource.get.js'' then Inr (Obj 1)
            else if f = ''/srv/routes/ignore.test.js'' then Inr (Obj 2)
            else Inl (ThrownError ''Cannot find module''))"

definition suite_heap :: heap where
  "suite_heap =
     (\<lambda>a. blank)
       (0 := descriptor (Str ''/login'') (Arr [Str ''post'']) (Arr [Fun 0]),
        1 := descriptor (Str ''/resource/:id'') (Arr [Str ''get'']) (Arr [Fun 1]),
        2 := descriptor (Str ''/ignore'') (Arr [Str ''get'']) (Arr [Fun 2]))"

text \<open>The login route with other declared paths: one that starts with two backslashes,
  one that climbs out of its directory.\<close>

definition backslash_heap :: heap where
  "backslash_heap =
     one_object (descriptor (Str [backslash, backslash, CHR ''x'']) (Arr [Str ''get'']) (Arr [Fun 0]))"

definition dotdot_heap :: heap where
  "dotdot_heap = one_object (descriptor (Str ''../admin'') (Arr [Str ''get'']) (Arr [Fun 0]))"

definition suite_api_options :: options where
  "suite_api_options =
     \<lparr>opt_prefix = Some ''/api'', opt_fileExtensions = None,
      opt_ignorePatterns = Some [ends_with_test_js]\<rparr>"

text \<open>A directory whose only entry is a regular file named \<open>.js\<close>.\<close>

definition dotfile_env :: env where
  "dotfile_env = example_env [file_entry ''/srv/routes'' ''.js''] (\<lambda>f. Inr (Obj 0))"

text \<open>Two files that the pattern \<^verbatim>\<open>/\.test\.js$/g\<close> matches, exporting objects 0 and 1.\<close>

definition global_test_js :: regexp where
  "global_test_js = ends_with_test_js\<lparr>rx_stateful := True\<rparr>"

definition global_options :: options where
  "global_options =
     \<lparr>opt_prefix = None, opt_fileExtensions = None, opt_ignorePatterns = Some [global_test_js]\<rparr>"

definition two_tests_env :: env where
  "two_tests_env =
     example_env [file_entry ''/srv/routes'' ''a.test.js'', file_entry ''/srv/routes'' ''b.test.js'']
       (\<lambda>f. if f = ''/srv/routes/a.test.js'' then Inr (Obj 0)
            else if f = ''/srv/routes/b.test.js'' then Inr (Obj 1)
            else Inl (ThrownError ''Cannot find module''))"

text \<open>A store in which no object has any of the three properties.\<close>

definition blank_heap :: heap where
  "blank_heap = (\<lambda>a. blank)"

text \<open>A process in which \<open>/srv/locked\<close> exists but cannot be listed, and nothing else
  exists.\<close>

definition locked_env :: env where
  "locked_env =
     \<lparr>cwd = ''/srv'',
      fs_access = (\<lambda>p. p = ''/srv/locked''),
      fs_readdir = (\<lambda>p. Inl ''EACCES: permission denied, scandir''),
      import_default = (\<lambda>f. Inr Undefined),
      register_throws = layer_throws\<rparr>"

text \<open>
  The files the properties call eligible, in listing order: the regular files whose
  extension is one of \<^verbatim>\<open>fileExtensions\<close> and whose full path no ignore pattern matches.
\<close>

definition full_path :: "dirent \<Rightarrow> string" where
  "full_path p = join [d_parentPath p, d_name p]"

definition eligible_files :: "options \<Rightarrow> dirent list \<Rightarrow> string list" where
  "eligible_files opts ents =
     map full_path
       (filter (\<lambda>p. d_type p = RegularFile \<and>
                    name_extension (d_name p) \<in> set (fileExtensions_of opts) \<and>
                    \<not> list_ex (\<lambda>r. rx_matches r (full_path p)) (ignorePatterns_of opts))
          ents)"

text \<open>
  A file that can be registered from store \<open>h\<close>: it exports an object that meets the
  route file contract, whose \<^verbatim>\<open>path\<close> can be assigned, and the router accepts the
  registration under the path computed for this file.
\<close>

definition registrable :: "env \<Rightarrow> string \<Rightarrow> string \<Rightarrow> heap \<Rightarrow> string \<Rightarrow> bool" where
  "registrable e prefix root h f =
     (case import_default e f of
        Inr (Obj a) \<Rightarrow>
          valid_descriptor (h a) \<and> \<not> o_frozen (h a) \<and>
          (case o_path (h a) of
             Str d \<Rightarrow>
               (case spread (o_handlers (h a)) of
                  Inr hs \<Rightarrow>
                    register_throws e (route_path e prefix root f d) (o_methods (h a)) hs = None
                | Inl ex \<Rightarrow> False)
           | v \<Rightarrow> False)
      | v \<Rightarrow> False)"

text \<open>The path computed for a file from the \<^verbatim>\<open>path\<close> its export holds in store \<open>h\<close>.\<close>

definition expected_path :: "env \<Rightarrow> string \<Rightarrow> string \<Rightarrow> heap \<Rightarrow> string \<Rightarrow> string" where
  "expected_path e prefix root h f =
     (case import_default e f of
        Inr (Obj a) \<Rightarrow> (case o_path (h a) of Str d \<Rightarrow> route_path e prefix root f d | v \<Rightarrow> [])
      | v \<Rightarrow> [])"

text \<open>The login route in a frozen object, and a route whose path the router refuses.\<close>

definition frozen_login_heap :: heap where
  "frozen_login_heap =
     one_object \<lparr>o_path = Str ''/login'', o_methods = Arr [Str ''post''],
                 o_handlers = Arr [Fun 0], o_frozen = True\<rparr>"

definition wildcard_heap :: heap where
  "wildcard_heap = one_object (descriptor (Str ''/files/*'') (Arr [Str ''get'']) (Arr [Fun 0]))"

section \<open>Properties\<close>

lemma valid_export_Obj:
  assumes "\<not> invalid_export h pkg"
  obtains a where "pkg = Obj a" "truthy (o_path (h a))" "truthy (o_methods (h a))" "truthy (o_handlers (h a))"
  using assms by (cases pkg) (auto simp: invalid_export_def)

lemma process_file_cases:
  fixes e pre root st f
  defines "h \<equiv> heap_of st"
  defines "lg \<equiv> log_of st @ [Import f]"
  obtains
    (import_failed) msg where
      "import_default e f = Inl (ThrownError msg)"
      "process_file e pre root st f = (None, st\<lparr>log_of := lg @ [WarnFailed f msg]\<rparr>)"
  | (import_escapes) ex where
      "import_default e f = Inl ex" "ex = ThrownNullish \<or> ex = ThrownUnreadable"
      "process_file e pre root st f = (Some (CatchClauseFailed f), st\<lparr>log_of := lg\<rparr>)"
  | (invalid) pkg where
      "import_default e f = Inr pkg" "invalid_export h pkg"
      "process_file e pre root st f = (None, st\<lparr>log_of := lg @ [WarnInvalid f]\<rparr>)"
  | (not_assigned) a msg where
      "import_default e f = Inr (Obj a)" "\<not> invalid_export h (Obj a)"
      "(\<forall>d. o_path (h a) \<noteq> Str d) \<or> o_frozen (h a)"
      "process_file e pre root st f = (None, st\<lparr>log_of := lg @ [WarnFailed f msg]\<rparr>)"
  | (not_registered) a d msg where
      "import_default e f = Inr (Obj a)" "\<not> invalid_export h (Obj a)"
      "o_path (h a) = Str d" "d \<noteq> []" "\<not> o_frozen (h a)"
      "spread (o_handlers (h a)) = Inl (ThrownError msg) \<or>
       (\<exists>hs. spread (o_handlers (h a)) = Inr hs \<and>
          register_throws e (route_path e pre root f d) (o_methods (h a)) hs = Some (ThrownError msg))"
      "process_file e pre root st f =
         (None, st\<lparr>heap_of := h(a := (h a)\<lparr>o_path := Str (route_path e pre root f d)\<rparr>),
                   log_of := lg @ [WarnFailed f msg]\<rparr>)"
  | (register_escapes) a d hs ex where
      "import_default e f = Inr (Obj a)" "\<not> invalid_export h (Obj a)"
      "o_path (h a) = Str d" "d \<noteq> []" "\<not> o_frozen (h a)"
      "spread (o_handlers (h a)) = Inr hs"
      "register_throws e (route_path e pre root f d) (o_methods (h a)) hs = Some ex"
      "ex = ThrownNullish \<or> ex = ThrownUnreadable"
      "process_file e pre root st f =
         (Some (CatchClauseFailed f),
          st\<lparr>heap_of := h(a := (h a)\<lparr>o_path := Str (route_path e pre root f d)\<rparr>), log_of := lg\<rparr>)"
  | (registered) a d hs where
      "import_default e f = Inr (Obj a)" "\<not> invalid_export h (Obj a)"
      "o_path (h a) = Str d" "d \<noteq> []" "\<not> o_frozen (h a)"
      "spread (o_handlers (h a)) = Inr hs"
      "register_throws e (route_path e pre root f d) (o_methods (h a)) hs = None"
      "process_file e pre root st f =
         (None,
          st\<lparr>heap_of := h(a := (h a)\<lparr>o_path := Str (route_path e pre root f d)\<rparr>),
             router_of := router_of st @
               [\<lparr>reg_path = route_path e pre root f d, reg_methods = o_methods (h a), reg_handlers = hs\<rparr>],
             log_of := lg @ [Registered f d (route_path e pre root f d)]\<rparr>)"
proof (cases "import_default e f")
  case (Inl ex)
  then show ?thesis
    using import_failed import_escapes[of ex]
    by (cases ex) (auto simp: process_file_def try_block_def catch_clause_def lg_def)
next
  case (Inr pkg)
  show ?thesis
  proof (cases "invalid_export h pkg")
    case True
    with Inr show ?thesis
      using invalid[of pkg]
      by (auto simp: process_file_def try_block_def invalid_export_def h_def lg_def Let_def)
  next
    case False
    then obtain a where a: "pkg = Obj a" "truthy (o_path (h a))" "truthy (o_methods (h a))" "truthy (o_handlers (h a))"
      by (rule valid_export_Obj)
    show ?thesis
    proof (cases "(\<forall>d. o_path (h a) \<noteq> Str d) \<or> o_frozen (h a)")
      case True
      have "\<exists>msg. process_file e pre root st f = (None, st\<lparr>log_of := lg @ [WarnFailed f msg]\<rparr>)"
        using Inr a True
        by (cases "o_path (h a)")
           (auto simp: process_file_def try_block_def catch_clause_def h_def lg_def Let_def)
      then show ?thesis using not_assigned Inr a False True by blast
    next
      case nf: False
      then obtain d where d: "o_path (h a) = Str d" "\<not> o_frozen (h a)" by blast
      with a have dne: "d \<noteq> []" by simp
      let ?p = "route_path e pre root f d"
      show ?thesis
      proof (cases "spread (o_handlers (h a))")
        case (Inl ex)
        then obtain msg where msg: "ex = ThrownError msg"
          by (cases "o_handlers (h a)") auto
        have "process_file e pre root st f =
         (None, st\<lparr>heap_of := h(a := (h a)\<lparr>o_path := Str ?p\<rparr>),
                   log_of := lg @ [WarnFailed f msg]\<rparr>)"
          using Inr a d Inl msg
          by (auto simp: process_file_def try_block_def catch_clause_def h_def lg_def Let_def)
        then show ?thesis using not_registered[of a d msg] Inr a False d dne Inl msg by blast
      next
        case hs: (Inr hs)
        show ?thesis
        proof (cases "register_throws e ?p (o_methods (h a)) hs")
          case None
          have "process_file e pre root st f =
         (None,
          st\<lparr>heap_of := h(a := (h a)\<lparr>o_path := Str ?p\<rparr>),
             router_of := router_of st @
               [\<lparr>reg_path = ?p, reg_methods = o_methods (h a), reg_handlers = hs\<rparr>],
             log_of := lg @ [Registered f d ?p]\<rparr>)"
            using Inr a d hs None
            by (auto simp: process_file_def try_block_def catch_clause_def h_def lg_def Let_def)
          then show ?thesis using registered[of a d hs] Inr a False d dne hs None by blast
        next
          case (Some ex)
          show ?thesis
          proof (cases "ex = ThrownNullish \<or> ex = ThrownUnreadable")
            case True
            have "process_file e pre root st f =
               (Some (CatchClauseFailed f),
                st\<lparr>heap_of := h(a := (h a)\<lparr>o_path := Str ?p\<rparr>), log_of := lg\<rparr>)"
              using Inr a d hs Some True
              by (auto simp: process_file_def try_block_def catch_clause_def h_def lg_def Let_def)
            then show ?thesis using register_escapes[of a d hs ex] Inr a False d dne hs Some True by blast
          next
            case nf: False
            then obtain msg where ThrownError: "ex = ThrownError msg" by (cases ex) auto
            have "process_file e pre root st f =
               (None, st\<lparr>heap_of := h(a := (h a)\<lparr>o_path := Str ?p\<rparr>),
                   log_of := lg @ [WarnFailed f msg]\<rparr>)"
              using Inr a d hs Some ThrownError
              by (auto simp: process_file_def try_block_def catch_clause_def h_def lg_def Let_def)
            then show ?thesis using not_registered[of a d msg] Inr a False d dne hs Some ThrownError by blast
          qed
        qed
      qed
    qed
  qed
qed


lemma process_files_invariant:
  assumes "P st"
    and "\<And>st f r st'. P st \<Longrightarrow> f \<in> set fs \<Longrightarrow> process_file e pre root st f = (r, st') \<Longrightarrow> P st'"
  shows "P (snd (process_files e pre root st fs))"
  using assms
proof (induction fs arbitrary: st)
  case Nil
  then show ?case by simp
next
  case (Cons f fs)
  obtain r st' where step: "process_file e pre root st f = (r, st')"
    by (cases "process_file e pre root st f")
  have P': "P st'" using Cons.prems(1) Cons.prems(2)[OF _ _ step] by simp
  show ?case
  proof (cases r)
    case None
    have "P (snd (process_files e pre root st' fs))"
      by (rule Cons.IH[OF P']) (use Cons.prems(2) in auto)
    with step None show ?thesis by simp
  next
    case (Some err)
    with step P' show ?thesis by simp
  qed
qed

lemma process_file_log:
  "\<exists>evs. log_of (snd (process_file e pre root st f)) = log_of st @ Import f # evs"
  by (rule process_file_cases[of e f pre root st]) auto

lemma process_files_log:
  "\<exists>evs. log_of (snd (process_files e pre root st fs)) = log_of st @ evs"
proof (induction fs arbitrary: st)
  case Nil
  then show ?case by simp
next
  case (Cons f fs)
  obtain r st' where step: "process_file e pre root st f = (r, st')"
    by (cases "process_file e pre root st f")
  obtain evs where evs: "log_of st' = log_of st @ Import f # evs"
    using process_file_log[of e pre root st f] step by auto
  show ?case
  proof (cases r)
    case None
    obtain evs' where "log_of (snd (process_files e pre root st' fs)) = log_of st' @ evs'"
      using Cons.IH[of st'] by blast
    with step None evs show ?thesis by simp
  next
    case (Some err)
    with step evs show ?thesis by simp
  qed
qed

lemma loadRouters_listed:
  assumes "fs_access e (absolute_path e dir)"
    and "fs_readdir e (absolute_path e dir) = Inr ents"
  shows "result (loadRouters e h dir opts) =
           (case fst (loop_end e h dir opts ents) of
              Some err \<Rightarrow> Inl err
            | None \<Rightarrow> Inr (router_of (snd (loop_end e h dir opts ents))))"
    and "heap_after (loadRouters e h dir opts) = heap_of (snd (loop_end e h dir opts ents))"
    and "events (loadRouters e h dir opts) = log_of (snd (loop_end e h dir opts ents))"
  using assms
  by (auto simp: loadRouters_def loop_end_def loop_start_def filteredFiles_def Let_def
           split: prod.splits option.splits)

lemma loadRouters_first_event:
  "\<exists>evs. events (loadRouters e h dir opts) = Access (absolute_path e dir) # evs"
proof (cases "fs_access e (absolute_path e dir)")
  case False
  then show ?thesis by (simp add: loadRouters_def Let_def)
next
  case True
  show ?thesis
  proof (cases "fs_readdir e (absolute_path e dir)")
    case (Inl msg)
    with True show ?thesis by (simp add: loadRouters_def Let_def)
  next
    case (Inr ents)
    obtain evs where
      "log_of (snd (loop_end e h dir opts ents)) = log_of (loop_start e h dir) @ evs"
      unfolding loop_end_def using process_files_log by blast
    then show ?thesis
      using loadRouters_listed(3)[OF True Inr, of h opts] by (simp add: loop_start_def)
  qed
qed

lemma normalize_absolute:
  "startsWith_slash p \<Longrightarrow> startsWith_slash (normalize p)"
  by (cases p) (auto simp: normalize_def Let_def)

lemma join_absolute:
  assumes "isAbsolute c"
  shows "isAbsolute (join (c # args))"
proof -
  from assms obtain cs where c: "c = slash # cs"
    by (cases c) (auto simp: isAbsolute_def)
  have "startsWith_slash (join_with_slash (c # filter (\<lambda>a. a \<noteq> []) args))"
    using c by (cases "filter (\<lambda>a. a \<noteq> []) args") auto
  then show ?thesis
    using c by (simp add: join_def isAbsolute_def normalize_absolute)
qed

lemma absolute_path_absolute:
  "isAbsolute (cwd e) \<Longrightarrow> isAbsolute (absolute_path e dir)"
  by (simp add: absolute_path_def join_absolute)

lemmas path_simps = join_def normalize_def normalizeString_def normalize_step_def
  dirname_def extname_def relative_def resolve_def segments_def isAbsolute_def
  replaceAll_backslash_def slash_def dot_def backslash_def

lemmas loader_simps = loadRouters_def absolute_path_def discovered_def isFile_def
  process_file_def try_block_def catch_clause_def route_path_def rx_test_def
  prefix_of_def fileExtensions_of_def ignorePatterns_of_def Let_def

lemmas example_simps = example_env_def file_entry_def login_env_def login_heap_def
  login_file_def api_options_def no_options_def blank_def descriptor_def one_object_def
  layer_throws_def

subsection \<open>Logs\<close>

lemma registered_files_append [simp]:
  "registered_files (xs @ ys) = registered_files xs @ registered_files ys"
  by (induction xs rule: registered_files.induct) simp_all

lemma registered_paths_append [simp]:
  "registered_paths (xs @ ys) = registered_paths xs @ registered_paths ys"
  by (induction xs rule: registered_paths.induct) simp_all

lemma imported_files_append [simp]:
  "imported_files (xs @ ys) = imported_files xs @ imported_files ys"
  by (induction xs rule: imported_files.induct) simp_all

lemma process_files_invariant_result:
  assumes "P st"
    and "Q None"
    and "\<And>st f r st'. P st \<Longrightarrow> f \<in> set fs \<Longrightarrow> process_file e pre root st f = (r, st')
           \<Longrightarrow> P st' \<and> Q r"
  shows "P (snd (process_files e pre root st fs)) \<and> Q (fst (process_files e pre root st fs))"
  using assms
proof (induction fs arbitrary: st)
  case Nil
  then show ?case by simp
next
  case (Cons f fs)
  obtain r st' where step: "process_file e pre root st f = (r, st')"
    by (cases "process_file e pre root st f")
  have PQ: "P st' \<and> Q r" using Cons.prems(1) Cons.prems(3)[OF _ _ step] by simp
  show ?case
  proof (cases r)
    case None
    have "P (snd (process_files e pre root st' fs)) \<and> Q (fst (process_files e pre root st' fs))"
      by (rule Cons.IH) (use PQ Cons.prems in auto)
    with step None show ?thesis by simp
  next
    case (Some err)
    with step PQ show ?thesis by simp
  qed
qed

subsection \<open>Invalid exports\<close>

lemma invalid_export_update:
  assumes "invalid_export h pkg" and "\<not> invalid_export h (Obj a)"
  shows "invalid_export (h(a := (h a)\<lparr>o_path := v\<rparr>)) pkg"
proof (cases "pkg = Obj a")
  case True
  with assms show ?thesis by simp
next
  case False
  with assms(1) show ?thesis
    by (cases pkg) (auto simp: invalid_export_def)
qed

lemma invalid_export_step:
  assumes "invalid_export (heap_of st) pkg"
    and "process_file e pre root st g = (r, st')"
  shows "invalid_export (heap_of st') pkg"
  using assms
  by (cases rule: process_file_cases[of e g pre root st])
     (auto simp: invalid_export_update)

lemma invalid_file_step:
  assumes "import_default e f = Inr pkg" and "invalid_export (heap_of st) pkg"
    and "f \<notin> set (registered_files (log_of st))"
    and "process_file e pre root st g = (r, st')"
  shows "f \<notin> set (registered_files (log_of st')) \<and> r \<noteq> Some (CatchClauseFailed f)"
  using assms
  by (cases rule: process_file_cases[of e g pre root st]) auto

text \<open>
  Claim C1, as the code has it. Line 75 tests truthiness: a file is skipped when its
  default export is falsy (absent, \<^verbatim>\<open>null\<close>, \<^verbatim>\<open>false\<close>, \<^verbatim>\<open>0\<close>, \<^verbatim>\<open>NaN\<close>, the empty string)
  or one of \<^verbatim>\<open>path\<close>, \<^verbatim>\<open>methods\<close>, \<^verbatim>\<open>handlers\<close> is. The iteration for such a file logs the
  import and the warning, changes neither the router nor the store and lets no error
  escape; the invocation never registers the file and never rejects because of it.
\<close>

theorem falsy_export_is_skipped:
  assumes "import_default e f = Inr pkg" and "invalid_export h pkg"
  shows "process_file e pre root \<lparr>heap_of = h, router_of = rs, log_of = lg\<rparr> f =
           (None, \<lparr>heap_of = h, router_of = rs, log_of = lg @ [Import f, WarnInvalid f]\<rparr>) \<and>
         f \<notin> set (registered_files (events (loadRouters e h dir opts))) \<and>
         result (loadRouters e h dir opts) \<noteq> Inl (CatchClauseFailed f)"
proof -
  let ?st = "\<lparr>heap_of = h, router_of = rs, log_of = lg\<rparr>"
  have step: "process_file e pre root ?st f =
           (None, \<lparr>heap_of = h, router_of = rs, log_of = lg @ [Import f, WarnInvalid f]\<rparr>)"
    using assms by (cases rule: process_file_cases[of e f pre root ?st]) auto
  have load: "f \<notin> set (registered_files (events (loadRouters e h dir opts))) \<and>
         result (loadRouters e h dir opts) \<noteq> Inl (CatchClauseFailed f)"
  proof (cases "fs_access e (absolute_path e dir)")
    case False
    then show ?thesis by (simp add: loadRouters_def Let_def)
  next
    case True
    show ?thesis
    proof (cases "fs_readdir e (absolute_path e dir)")
      case (Inl msg)
      with True show ?thesis by (simp add: loadRouters_def Let_def)
    next
      case (Inr ents)
      let ?P = "\<lambda>st. invalid_export (heap_of st) pkg \<and> f \<notin> set (registered_files (log_of st))"
      let ?Q = "\<lambda>r. r \<noteq> Some (CatchClauseFailed f)"
      have "?P (snd (loop_end e h dir opts ents)) \<and> ?Q (fst (loop_end e h dir opts ents))"
        unfolding loop_end_def
      proof (rule process_files_invariant_result)
        show "?P (loop_start e h dir)" using assms(2) by (simp add: loop_start_def)
        show "?Q None" by simp
      next
        fix st g r st'
        assume "?P st" and "process_file e (prefix_of opts) (absolute_path e dir) st g = (r, st')"
        then show "?P st' \<and> ?Q r"
          using invalid_export_step invalid_file_step[OF assms(1)] by blast
      qed
      then show ?thesis
        using loadRouters_listed[OF True Inr, of h opts]
        by (auto split: option.splits)
    qed
  qed
  from step load show ?thesis by simp
qed

theorem falsy_export_is_skipped_witness:
  "import_default no_default_env login_file = Inr Undefined \<and>
   invalid_export login_heap Undefined \<and>
   login_file \<notin> set (registered_files (events (loadRouters no_default_env login_heap ''routes'' no_options))) \<and>
   result (loadRouters no_default_env login_heap ''routes'' no_options) \<noteq> Inl (CatchClauseFailed login_file)"
proof -
  have 1: "import_default no_default_env login_file = Inr Undefined"
    by (simp add: no_default_env_def example_env_def)
  have 2: "invalid_export login_heap Undefined"
    by (simp add: invalid_export_def)
  show ?thesis
    using falsy_export_is_skipped[OF 1 2, where dir = "''routes''" and opts = no_options] 1 2
    by simp
qed

theorem empty_methods_is_registered:
  "o_methods (no_methods_heap 0) = Arr [] \<and>
   import_default login_env login_file = Inr (Obj 0) \<and>
   result (loadRouters login_env no_methods_heap ''routes'' no_options) =
     Inr [\<lparr>reg_path = ''/login'', reg_methods = Arr [], reg_handlers = [Fun 0]\<rparr>] \<and>
   events (loadRouters login_env no_methods_heap ''routes'' no_options) =
     [Access ''/srv/routes'', Readdir ''/srv/routes'', Import login_file,
      Registered login_file ''/login'' ''/login'']"
  by (simp add: loader_simps path_simps example_simps no_methods_heap_def)

subsection \<open>Errors that escape the loop\<close>

text \<open>
  Claim C4 at the input where it fails. A module that throws \<^verbatim>\<open>null\<close> makes the
  \<^verbatim>\<open>catch\<close> clause itself throw when it reads \<^verbatim>\<open>error.message\<close>: the invocation rejects,
  and the login route listed after the broken file is never imported.
\<close>

theorem thrown_null_escapes_the_loop:
  "result (loadRouters broken_env login_heap ''routes'' no_options) =
     Inl (CatchClauseFailed broken_file) \<and>
   events (loadRouters broken_env login_heap ''routes'' no_options) =
     [Access ''/srv/routes'', Readdir ''/srv/routes'', Import broken_file]"
  by (simp add: loader_simps path_simps example_simps broken_env_def broken_file_def)

text \<open>Every other failure of a file is caught: when whatever a module or a registration
  throws has a \<^verbatim>\<open>message\<close> that can be read, a directory that exists and is listed always
  yields a router.\<close>

lemma caught_failures_yield_router:
  assumes "fs_access e (absolute_path e dir)"
    and "fs_readdir e (absolute_path e dir) = Inr ents"
    and "\<And>f ex. import_default e f = Inl ex \<Longrightarrow> message_readable ex"
    and "\<And>p m hs ex. register_throws e p m hs = Some ex \<Longrightarrow> message_readable ex"
  shows "\<exists>router. result (loadRouters e h dir opts) = Inr router"
proof -
  have "True \<and> fst (loop_end e h dir opts ents) = None"
    unfolding loop_end_def
  proof (rule process_files_invariant_result[where P = "\<lambda>st. True" and Q = "\<lambda>r. r = None"])
    fix st g r st'
    assume "process_file e (prefix_of opts) (absolute_path e dir) st g = (r, st')"
    then show "True \<and> r = None"
      by (cases rule: process_file_cases[of e g "prefix_of opts" "absolute_path e dir" st])
         (auto dest: assms(3) assms(4))
  qed simp_all
  then show ?thesis
    using loadRouters_listed(1)[OF assms(1,2), of h opts] by simp
qed

subsection \<open>Repeated invocations\<close>

text \<open>
  Claim C5 at the input where it fails. The host caches modules, so the second invocation
  imports the object whose \<^verbatim>\<open>path\<close> the first one overwrote, and prefixes it again.
\<close>

theorem second_invocation_registers_other_path:
  "result (loadRouters login_env login_heap ''routes'' api_options) =
     Inr [\<lparr>reg_path = ''/api/login'', reg_methods = Arr [Str ''post''], reg_handlers = [Fun 0]\<rparr>] \<and>
   result (loadRouters login_env
             (heap_after (loadRouters login_env login_heap ''routes'' api_options))
             ''routes'' api_options) =
     Inr [\<lparr>reg_path = ''/api/api/login'', reg_methods = Arr [Str ''post''], reg_handlers = [Fun 0]\<rparr>]"
  by (simp add: loader_simps path_simps example_simps)

subsection \<open>The registered path\<close>

lemma route_path_startsWith_slash: "startsWith_slash (route_path e pre root f d)"
  by (simp add: route_path_def Let_def)

lemma route_path_nonempty: "route_path e pre root f d \<noteq> []"
  using route_path_startsWith_slash[of e pre root f d] by auto

subsection \<open>The write to the store\<close>

lemma registered_step:
  assumes "process_file e pre root st f = (r, st')" and "router_of st' \<noteq> router_of st"
  shows "\<exists>a d hs. import_default e f = Inr (Obj a) \<and> o_path (heap_of st a) = Str d \<and> d \<noteq> [] \<and>
           r = None \<and>
           router_of st' = router_of st @
             [\<lparr>reg_path = route_path e pre root f d, reg_methods = o_methods (heap_of st a),
               reg_handlers = hs\<rparr>] \<and>
           log_of st' = log_of st @ [Import f, Registered f d (route_path e pre root f d)] \<and>
           heap_of st' = (heap_of st)(a := (heap_of st a)\<lparr>o_path := Str (route_path e pre root f d)\<rparr>)"
  using assms
  by (cases rule: process_file_cases[of e f pre root st]) auto

text \<open>
  Claim C10, as the code has it. When an iteration registers a file, the exported object
  is the only object of the store that changes, and only in its \<^verbatim>\<open>path\<close>, which now holds
  the registered path. It still reads what the file declared exactly when the registered
  path is that same string.
\<close>

theorem registration_overwrites_path:
  assumes "process_file e pre root st f = (r, st')" and "router_of st' \<noteq> router_of st"
  shows "\<exists>a d. import_default e f = Inr (Obj a) \<and> o_path (heap_of st a) = Str d \<and>
           reg_path (last (router_of st')) = route_path e pre root f d \<and>
           heap_of st' = (heap_of st)(a := (heap_of st a)\<lparr>o_path := Str (route_path e pre root f d)\<rparr>) \<and>
           (o_path (heap_of st' a) = Str d) = (route_path e pre root f d = d)"
proof -
  obtain a d hs where *: "import_default e f = Inr (Obj a)" "o_path (heap_of st a) = Str d"
    "router_of st' = router_of st @
             [\<lparr>reg_path = route_path e pre root f d, reg_methods = o_methods (heap_of st a),
               reg_handlers = hs\<rparr>]"
    "heap_of st' = (heap_of st)(a := (heap_of st a)\<lparr>o_path := Str (route_path e pre root f d)\<rparr>)"
    using registered_step[OF assms] by blast
  have "(o_path (heap_of st' a) = Str d) = (route_path e pre root f d = d)"
    using *(4) by auto
  with * show ?thesis by auto
qed

theorem registration_overwrites_path_witness:
  "process_file login_env ''/api'' ''/srv/routes'' \<lparr>heap_of = login_heap, router_of = [], log_of = []\<rparr> login_file =
     (None, \<lparr>heap_of = login_heap(0 := (login_heap 0)\<lparr>o_path := Str ''/api/login''\<rparr>),
             router_of = [\<lparr>reg_path = ''/api/login'', reg_methods = Arr [Str ''post''], reg_handlers = [Fun 0]\<rparr>],
             log_of = [Import login_file, Registered login_file ''/login'' ''/api/login'']\<rparr>) \<and>
   (\<exists>a d. import_default login_env login_file = Inr (Obj a) \<and> o_path (login_heap a) = Str d \<and>
      route_path login_env ''/api'' ''/srv/routes'' login_file d = ''/api/login'')"
proof -
  let ?st = "\<lparr>heap_of = login_heap, router_of = [], log_of = []\<rparr>"
  let ?st' = "\<lparr>heap_of = login_heap(0 := (login_heap 0)\<lparr>o_path := Str ''/api/login''\<rparr>),
             router_of = [\<lparr>reg_path = ''/api/login'', reg_methods = Arr [Str ''post''], reg_handlers = [Fun 0]\<rparr>],
             log_of = [Import login_file, Registered login_file ''/login'' ''/api/login'']\<rparr>"
  have step: "process_file login_env ''/api'' ''/srv/routes'' ?st login_file = (None, ?st')"
    by (simp add: loader_simps path_simps example_simps)
  have grown: "router_of ?st' \<noteq> router_of ?st" by simp
  show ?thesis
    using registration_overwrites_path[OF step grown] step by auto
qed

theorem overwritten_path_equals_declared:
  "o_path (login_heap 0) = Str ''/login'' \<and>
   import_default login_env login_file = Inr (Obj 0) \<and>
   registered_files (events (loadRouters login_env login_heap ''routes'' no_options)) = [login_file] \<and>
   o_path (heap_after (loadRouters login_env login_heap ''routes'' no_options) 0) = Str ''/login''"
  by (simp add: loader_simps path_simps example_simps)

text \<open>The store after an invocation differs from the store before it in \<^verbatim>\<open>path\<close>
  properties only, and only for objects that an imported file exports.\<close>

lemma store_frame_step:
  assumes "process_file e pre root st f = (r, st')"
  shows "heap_of st' = heap_of st \<or>
         (\<exists>a v. import_default e f = Inr (Obj a) \<and> heap_of st' = (heap_of st)(a := (heap_of st a)\<lparr>o_path := v\<rparr>))"
  using assms
  by (cases rule: process_file_cases[of e f pre root st]) auto

lemma path_update_same: "\<exists>v. (x::jsobj) = x\<lparr>o_path := v\<rparr>"
  by (rule exI[of _ "o_path x"]) simp

lemma store_frame:
  "(\<exists>v. heap_after (loadRouters e h dir opts) b = (h b)\<lparr>o_path := v\<rparr>) \<and>
   ((\<forall>f \<in> set (imported_files (events (loadRouters e h dir opts))). import_default e f \<noteq> Inr (Obj b))
      \<longrightarrow> heap_after (loadRouters e h dir opts) b = h b)"
proof (cases "fs_access e (absolute_path e dir)")
  case False
  with path_update_same[of "h b"] show ?thesis by (simp add: loadRouters_def Let_def)
next
  case True
  show ?thesis
  proof (cases "fs_readdir e (absolute_path e dir)")
    case (Inl msg)
    with True path_update_same[of "h b"] show ?thesis by (simp add: loadRouters_def Let_def)
  next
    case (Inr ents)
    let ?P = "\<lambda>st. (\<exists>v. heap_of st b = (h b)\<lparr>o_path := v\<rparr>) \<and>
       ((\<forall>f \<in> set (imported_files (log_of st)). import_default e f \<noteq> Inr (Obj b)) \<longrightarrow> heap_of st b = h b)"
    have "?P (snd (loop_end e h dir opts ents))"
      unfolding loop_end_def
    proof (rule process_files_invariant)
      show "?P (loop_start e h dir)" using path_update_same[of "h b"] by (simp add: loop_start_def)
    next
      fix st g r st'
      assume P: "?P st" and step: "process_file e (prefix_of opts) (absolute_path e dir) st g = (r, st')"
      obtain evs where evs: "log_of st' = log_of st @ Import g # evs"
        using process_file_log[of e "prefix_of opts" "absolute_path e dir" st g] step by auto
      from store_frame_step[OF step] show "?P st'"
      proof
        assume "heap_of st' = heap_of st"
        with P evs show ?thesis by auto
      next
        assume "\<exists>a v. import_default e g = Inr (Obj a) \<and>
           heap_of st' = (heap_of st)(a := (heap_of st a)\<lparr>o_path := v\<rparr>)"
        then obtain a v where a: "import_default e g = Inr (Obj a)"
          "heap_of st' = (heap_of st)(a := (heap_of st a)\<lparr>o_path := v\<rparr>)" by blast
        from P obtain w where w: "heap_of st b = (h b)\<lparr>o_path := w\<rparr>" by blast
        show ?thesis
        proof (cases "a = b")
          case True
          with a w evs show ?thesis by auto
        next
          case False
          with a P evs show ?thesis by auto
        qed
      qed
    qed
    then show ?thesis
      using loadRouters_listed[OF True Inr, of h opts] by simp
  qed
qed

subsection \<open>The router and the log\<close>

lemma router_matches_log_step:
  assumes "map reg_path (router_of st) = registered_paths (log_of st)"
    and "process_file e pre root st f = (r, st')"
  shows "map reg_path (router_of st') = registered_paths (log_of st')"
  using assms
  by (cases rule: process_file_cases[of e f pre root st]) auto

lemma router_matches_log:
  assumes "result (loadRouters e h dir opts) = Inr router"
  shows "map reg_path router = registered_paths (events (loadRouters e h dir opts))"
proof (cases "fs_access e (absolute_path e dir)")
  case False
  with assms show ?thesis by (simp add: loadRouters_def Let_def)
next
  case True
  show ?thesis
  proof (cases "fs_readdir e (absolute_path e dir)")
    case (Inl msg)
    with True assms show ?thesis by (simp add: loadRouters_def Let_def)
  next
    case (Inr ents)
    let ?P = "\<lambda>st. map reg_path (router_of st) = registered_paths (log_of st)"
    have "?P (snd (loop_end e h dir opts ents))"
      unfolding loop_end_def
      by (rule process_files_invariant) (auto simp: loop_start_def router_matches_log_step)
    then show ?thesis
      using assms loadRouters_listed[OF True Inr, of h opts]
      by (auto split: option.splits)
  qed
qed

lemmas suite_simps = suite_env_def suite_entries_def suite_heap_def suite_options_def
  ends_with_test_js_def

lemma suite_filteredFiles:
  "filteredFiles suite_options suite_entries =
     [''/srv/routes/user.login.js'', ''/srv/routes/v1/resource.get.js'']"
  by (simp add: filteredFiles_def loader_simps path_simps example_simps suite_simps)

lemma suite_listed:
  "absolute_path suite_env ''routes'' = ''/srv/routes''"
  "fs_access suite_env ''/srv/routes''"
  "fs_readdir suite_env ''/srv/routes'' = Inr suite_entries"
  by (simp_all add: absolute_path_def path_simps example_simps suite_env_def)

subsection \<open>Segments\<close>

lemma split_slash_nonempty [simp]: "split_slash p \<noteq> []"
  by (induction p) (auto split: list.splits)

lemma split_slash_no_slash: "s \<in> set (split_slash p) \<Longrightarrow> slash \<notin> set s"
  by (induction p arbitrary: s) (auto split: list.splits if_splits)

lemma split_slash_append: "split_slash (a @ slash # b) = split_slash a @ split_slash b"
  by (induction a) (auto split: list.splits)

lemma join_with_slash_Cons:
  "xs \<noteq> [] \<Longrightarrow> join_with_slash (x # xs) = x @ slash # join_with_slash xs"
  by (cases xs) simp_all

lemma split_join_with_slash:
  "parts \<noteq> [] \<Longrightarrow> split_slash (join_with_slash parts) = concat (map split_slash parts)"
proof (induction parts)
  case Nil
  then show ?case by simp
next
  case (Cons x xs)
  show ?case
  proof (cases xs)
    case Nil
    then show ?thesis by simp
  next
    case (Cons y ys)
    then have "xs \<noteq> []" by simp
    with Cons.IH show ?thesis
      by (simp add: join_with_slash_Cons split_slash_append)
  qed
qed

lemma last_join_with_slash:
  "parts \<noteq> [] \<Longrightarrow> last parts \<noteq> [] \<Longrightarrow> last (join_with_slash parts) = last (last parts)"
proof (induction parts)
  case Nil
  then show ?case by simp
next
  case (Cons x xs)
  show ?case
  proof (cases xs)
    case Nil
    then show ?thesis by simp
  next
    case (Cons y ys)
    then have ne: "xs \<noteq> []" by simp
    have "join_with_slash xs \<noteq> []"
      using ne Cons.prems(2) by (induction xs rule: join_with_slash.induct) auto
    with Cons.IH Cons.prems ne show ?thesis
      by (simp add: join_with_slash_Cons)
  qed
qed

lemma only_empty_segments:
  "filter (\<lambda>s. s \<noteq> []) (split_slash d) = [] \<Longrightarrow> d \<noteq> [] \<Longrightarrow> last d = slash"
  by (induction d) (auto split: list.splits if_splits)

lemma dot_neq_slash: "dot \<noteq> slash"
  by (simp add: dot_def slash_def)

lemma normalize_step_kept:
  assumes "\<forall>s \<in> set acc. s \<noteq> [] \<and> slash \<notin> set s" and "slash \<notin> set x"
  shows "\<forall>s \<in> set (normalize_step allow acc x). s \<noteq> [] \<and> slash \<notin> set s"
proof (cases "x = [] \<or> x = [dot]")
  case True
  with assms(1) show ?thesis by (simp add: normalize_step_def)
next
  case False
  show ?thesis
  proof (cases "x = [dot, dot]")
    case dd: True
    show ?thesis
    proof (cases acc)
      case Nil
      with dd show ?thesis using dot_neq_slash by (simp add: normalize_step_def)
    next
      case (Cons t ts)
      with dd assms(1) show ?thesis using dot_neq_slash by (simp add: normalize_step_def)
    qed
  next
    case nd: False
    with False assms show ?thesis by (simp add: normalize_step_def)
  qed
qed

lemma kept_segments:
  assumes "\<forall>s \<in> set acc. s \<noteq> [] \<and> slash \<notin> set s"
    and "\<forall>s \<in> set segs. slash \<notin> set s"
  shows "\<forall>s \<in> set (foldl (normalize_step allow) acc segs). s \<noteq> [] \<and> slash \<notin> set s"
  using assms
proof (induction segs arbitrary: acc)
  case Nil
  then show ?case by simp
next
  case (Cons x xs)
  have "\<forall>s \<in> set (normalize_step allow acc x). s \<noteq> [] \<and> slash \<notin> set s"
    by (rule normalize_step_kept) (use Cons.prems in simp_all)
  then show ?case using Cons.IH[of "normalize_step allow acc x"] Cons.prems(2) by simp
qed

lemma join_with_slash_head:
  assumes "segs \<noteq> []" and "\<forall>s \<in> set segs. s \<noteq> [] \<and> slash \<notin> set s"
  shows "join_with_slash segs \<noteq> [] \<and> \<not> startsWith_slash (join_with_slash segs)"
proof -
  from assms obtain x xs where segs: "segs = x # xs" by (cases segs) auto
  with assms obtain c cs where x: "x = c # cs" "c \<noteq> slash" by (cases x) auto
  show ?thesis
    using segs x by (cases xs) auto
qed

lemma normalizeString_head:
  "normalizeString p allow = [] \<or> \<not> startsWith_slash (normalizeString p allow)"
proof -
  let ?k = "foldl (normalize_step allow) [] (split_slash p)"
  have k: "\<forall>s \<in> set ?k. s \<noteq> [] \<and> slash \<notin> set s"
    by (rule kept_segments) (auto dest: split_slash_no_slash)
  show ?thesis
  proof (cases "?k = []")
    case True
    then show ?thesis by (simp add: normalizeString_def)
  next
    case False
    then have "rev ?k \<noteq> []" by simp
    moreover have "\<forall>s \<in> set (rev ?k). s \<noteq> [] \<and> slash \<notin> set s" using k by simp
    ultimately show ?thesis
      unfolding normalizeString_def using join_with_slash_head by blast
  qed
qed

lemma normalize_no_double_slash: "\<not> (\<exists>r. normalize p = slash # slash # r)"
proof (cases "p = []")
  case True
  then show ?thesis by (simp add: normalize_def dot_def slash_def)
next
  case False
  let ?q = "normalizeString p (\<not> startsWith_slash p)"
  show ?thesis
  proof (cases "?q = []")
    case True
    with False show ?thesis by (auto simp: normalize_def Let_def dot_def slash_def)
  next
    case q: False
    with normalizeString_head[of p "\<not> startsWith_slash p"]
    obtain c cs where c: "?q = c # cs" "c \<noteq> slash"
      by (cases ?q) auto
    with False show ?thesis by (auto simp: normalize_def Let_def)
  qed
qed

lemma join_no_double_slash: "\<not> (\<exists>r. join args = slash # slash # r)"
  using normalize_no_double_slash
  by (auto simp: join_def Let_def dot_def slash_def)

lemma replaceAll_backslash_id: "backslash \<notin> set s \<Longrightarrow> replaceAll_backslash s = s"
  by (induction s) (auto simp: replaceAll_backslash_def)

lemma replaceAll_backslash_free: "backslash \<notin> set (replaceAll_backslash s)"
  by (auto simp: replaceAll_backslash_def slash_def backslash_def)

lemma route_path_facts:
  fixes e pre root f d
  defines "j \<equiv> join [pre, relative (cwd e) root (dirname f), d]"
  defines "p \<equiv> route_path e pre root f d"
  shows "p = (if startsWith_slash (replaceAll_backslash j) then replaceAll_backslash j
              else slash # replaceAll_backslash j)"
    and "startsWith_slash p"
    and "backslash \<notin> set p"
    and "backslash \<notin> set j \<Longrightarrow> \<not> startsWith_slash (tl p)"
proof -
  show 1: "p = (if startsWith_slash (replaceAll_backslash j) then replaceAll_backslash j
              else slash # replaceAll_backslash j)"
    by (simp add: p_def j_def route_path_def Let_def)
  show "startsWith_slash p" by (simp add: 1)
  show "backslash \<notin> set p"
    using replaceAll_backslash_free[of j] by (auto simp: 1 slash_def backslash_def)
  show "\<not> startsWith_slash (tl p)" if "backslash \<notin> set j"
  proof -
    have id: "replaceAll_backslash j = j" using that by (rule replaceAll_backslash_id)
    show ?thesis
    proof (cases "startsWith_slash j")
      case True
      then obtain r where "j = slash # r" by (cases j) auto
      moreover have "\<not> (\<exists>r. j = slash # slash # r)"
        unfolding j_def by (rule join_no_double_slash)
      ultimately have "\<not> startsWith_slash (tl j)" by (cases r) auto
      with True id show ?thesis by (simp add: 1)
    next
      case False
      with id show ?thesis by (simp add: 1)
    qed
  qed
qed

subsection \<open>Paths without dot segments\<close>

lemma foldl_normalize_step_plain:
  assumes "[dot] \<notin> set segs" and "[dot, dot] \<notin> set segs"
  shows "foldl (normalize_step allow) acc segs = rev (filter (\<lambda>s. s \<noteq> []) segs) @ acc"
  using assms
  by (induction segs arbitrary: acc) (auto simp: normalize_step_def)

lemma api_prefix:
  assumes "no_dot_segments rel" and "no_dot_segments d" and "d \<noteq> []"
  shows "\<exists>r. join [''/api'', rel, d] = ''/api/'' @ r"
proof -
  let ?parts = "filter (\<lambda>a. a \<noteq> []) [''/api'', rel, d]"
  let ?joined = "join_with_slash ?parts"
  let ?rest = "filter (\<lambda>s. s \<noteq> []) (concat (map split_slash (filter (\<lambda>a. a \<noteq> []) [rel, d])))"
  have parts: "?parts = ''/api'' # filter (\<lambda>a. a \<noteq> []) [rel, d]" by simp
  have last_parts: "last ?parts = d" using assms(3) by simp
  have split_api: "split_slash ''/api'' = [[], ''api'']" by (simp add: slash_def)
  have split: "split_slash ?joined = [[], ''api''] @ concat (map split_slash (filter (\<lambda>a. a \<noteq> []) [rel, d]))"
    using split_join_with_slash[of ?parts] split_api by simp
  have plain: "[dot] \<notin> set (split_slash ?joined)" "[dot, dot] \<notin> set (split_slash ?joined)"
    using assms(1,2) unfolding split no_dot_segments_def by (auto simp: dot_def)
  have kept: "rev (foldl (normalize_step False) [] (split_slash ?joined)) = ''api'' # ?rest"
    using foldl_normalize_step_plain[OF plain, of False "[]"] unfolding split by simp
  have abs: "startsWith_slash ?joined" "?joined \<noteq> []"
    by (cases "filter (\<lambda>a. a \<noteq> []) [rel, d]"; simp add: slash_def)+
  have q: "normalizeString ?joined False = join_with_slash (''api'' # ?rest)"
    by (simp only: normalizeString_def kept)
  have norm: "normalize ?joined = slash # join_with_slash (''api'' # ?rest) @ (if last ?joined = slash then [slash] else [])"
  proof -
    have "join_with_slash (''api'' # ?rest) \<noteq> []" by (cases ?rest) auto
    then show ?thesis
      using abs q by (simp add: normalize_def Let_def)
  qed
  have "\<exists>r. normalize ?joined = ''/api/'' @ r"
  proof (cases "?rest = []")
    case True
    have "filter (\<lambda>s. s \<noteq> []) (split_slash d) = []"
      using True assms(3) by (cases "rel = []") auto
    then have "last d = slash" using assms(3) by (rule only_empty_segments)
    moreover have "last ?joined = last d"
      using last_join_with_slash[of ?parts] last_parts assms(3) by simp
    ultimately have "last ?joined = slash" by simp
    with norm True show ?thesis by (simp add: slash_def)
  next
    case False
    then have "join_with_slash (''api'' # ?rest) = ''api'' @ slash # join_with_slash ?rest"
      by (rule join_with_slash_Cons)
    with norm show ?thesis by (simp add: slash_def)
  qed
  then show ?thesis by (simp add: join_def Let_def)
qed

lemma route_path_api:
  assumes "no_dot_segments (relative (cwd e) root (dirname f))" and "no_dot_segments d" and "d \<noteq> []"
  shows "take 5 (route_path e ''/api'' root f d) = ''/api/''"
proof -
  obtain r where "join [''/api'', relative (cwd e) root (dirname f), d] = ''/api/'' @ r"
    using api_prefix[OF assms] by blast
  then show ?thesis
    by (simp add: route_path_def Let_def replaceAll_backslash_def slash_def backslash_def)
qed

subsection \<open>Registrations in the log\<close>

lemma registered_paths_set:
  "p \<in> set (registered_paths evs) \<longleftrightarrow> (\<exists>f d. Registered f d p \<in> set evs)"
  by (induction evs rule: registered_paths.induct) auto

lemma registered_event_step:
  assumes "\<forall>f d p. Registered f d p \<in> set (log_of st) \<longrightarrow>
             p = route_path e pre root f d \<and> d \<noteq> [] \<and> f \<in> set fs"
    and "g \<in> set fs"
    and "process_file e pre root st g = (r, st')"
  shows "\<forall>f d p. Registered f d p \<in> set (log_of st') \<longrightarrow>
             p = route_path e pre root f d \<and> d \<noteq> [] \<and> f \<in> set fs"
  using assms
  by (cases rule: process_file_cases[of e g pre root st]) fastforce+

lemma registered_event:
  assumes "Registered f d p \<in> set (events (loadRouters e h dir opts))"
  shows "p = route_path e (prefix_of opts) (absolute_path e dir) f d \<and> d \<noteq> [] \<and>
         (\<exists>ents. fs_readdir e (absolute_path e dir) = Inr ents \<and> f \<in> set (filteredFiles opts ents))"
proof (cases "fs_access e (absolute_path e dir)")
  case False
  with assms show ?thesis by (simp add: loadRouters_def Let_def)
next
  case True
  show ?thesis
  proof (cases "fs_readdir e (absolute_path e dir)")
    case (Inl msg)
    with True assms show ?thesis by (simp add: loadRouters_def Let_def)
  next
    case (Inr ents)
    let ?P = "\<lambda>st. \<forall>f d p. Registered f d p \<in> set (log_of st) \<longrightarrow>
       p = route_path e (prefix_of opts) (absolute_path e dir) f d \<and> d \<noteq> [] \<and>
       f \<in> set (filteredFiles opts ents)"
    have "?P (snd (loop_end e h dir opts ents))"
      unfolding loop_end_def
    proof (rule process_files_invariant)
      show "?P (loop_start e h dir)" by (simp add: loop_start_def)
    next
      fix st g r st'
      assume "?P st" and "g \<in> set (filteredFiles opts ents)"
        and "process_file e (prefix_of opts) (absolute_path e dir) st g = (r, st')"
      then show "?P st'" by (rule registered_event_step)
    qed
    then show ?thesis
      using assms Inr loadRouters_listed(3)[OF True Inr, of h opts] by simp
  qed
qed

text \<open>
  Claim C2, as the code has it. A file is registered under the path computed by lines 80
  to 82 from the prefix, the directory of the file relative to the resolved root and the
  \<^verbatim>\<open>path\<close> read from its descriptor: the three are joined, every backslash becomes
  \<open>/\<close>, and a \<open>/\<close> is put in front unless one is there. That path is one of the paths of
  the returned router, starts with \<open>/\<close> and holds no backslash. It starts with exactly one
  \<open>/\<close> whenever the joined path holds no backslash.
\<close>

theorem registered_path_is_rewritten_join:
  assumes "Registered f d p \<in> set (events (loadRouters e h dir opts))"
  shows "p = (let j = replaceAll_backslash
                    (join [prefix_of opts, relative (cwd e) (absolute_path e dir) (dirname f), d])
              in if startsWith_slash j then j else slash # j) \<and>
         startsWith_slash p \<and>
         backslash \<notin> set p \<and>
         (backslash \<notin> set (join [prefix_of opts, relative (cwd e) (absolute_path e dir) (dirname f), d])
            \<longrightarrow> \<not> startsWith_slash (tl p)) \<and>
         (\<forall>router. result (loadRouters e h dir opts) = Inr router \<longrightarrow> p \<in> set (map reg_path router))"
proof -
  have p: "p = route_path e (prefix_of opts) (absolute_path e dir) f d"
    using registered_event[OF assms] by simp
  have "p \<in> set (registered_paths (events (loadRouters e h dir opts)))"
    using assms registered_paths_set by blast
  then have "\<forall>router. result (loadRouters e h dir opts) = Inr router \<longrightarrow> p \<in> set (map reg_path router)"
    using router_matches_log[of e h dir opts] by simp
  then show ?thesis
    unfolding p
    using route_path_facts[where e = e and pre = "prefix_of opts" and root = "absolute_path e dir"
        and f = f and d = d]
    by (simp add: Let_def)
qed

lemma suite_events:
  "events (loadRouters suite_env suite_heap ''routes'' suite_options) =
     [Access ''/srv/routes'', Readdir ''/srv/routes'',
      Import ''/srv/routes/user.login.js'',
      Registered ''/srv/routes/user.login.js'' ''/login'' ''/login'',
      Import ''/srv/routes/v1/resource.get.js'',
      Registered ''/srv/routes/v1/resource.get.js'' ''/resource/:id'' ''/v1/resource/:id'']"
  by (simp add: loader_simps path_simps example_simps suite_simps)

theorem registered_path_is_rewritten_join_witness:
  "Registered ''/srv/routes/v1/resource.get.js'' ''/resource/:id'' ''/v1/resource/:id''
     \<in> set (events (loadRouters suite_env suite_heap ''routes'' suite_options)) \<and>
   ''/v1/resource/:id'' =
     (let j = replaceAll_backslash
                (join [prefix_of suite_options,
                       relative (cwd suite_env) (absolute_path suite_env ''routes'')
                         (dirname ''/srv/routes/v1/resource.get.js''),
                       ''/resource/:id''])
      in if startsWith_slash j then j else slash # j) \<and>
   relative (cwd suite_env) (absolute_path suite_env ''routes'')
     (dirname ''/srv/routes/v1/resource.get.js'') = ''v1'' \<and>
   join [prefix_of suite_options, ''v1'', ''/resource/:id''] = ''v1/resource/:id''"
proof -
  have ev: "Registered ''/srv/routes/v1/resource.get.js'' ''/resource/:id'' ''/v1/resource/:id''
     \<in> set (events (loadRouters suite_env suite_heap ''routes'' suite_options))"
    by (simp add: suite_events)
  have rel: "relative (cwd suite_env) (absolute_path suite_env ''routes'')
     (dirname ''/srv/routes/v1/resource.get.js'') = ''v1''"
    by (simp add: absolute_path_def path_simps example_simps suite_simps)
  have j: "join [prefix_of suite_options, ''v1'', ''/resource/:id''] = ''v1/resource/:id''"
    by (simp add: prefix_of_def path_simps suite_simps)
  from registered_path_is_rewritten_join[OF ev, THEN conjunct1] ev rel j
  show ?thesis by blast
qed

theorem backslashes_give_two_leading_slashes:
  "o_path (backslash_heap 0) = Str [CHR 0x5C, CHR 0x5C, CHR ''x''] \<and>
   import_default login_env login_file = Inr (Obj 0) \<and>
   result (loadRouters login_env backslash_heap ''routes'' no_options) =
     Inr [\<lparr>reg_path = ''//x'', reg_methods = Arr [Str ''get''], reg_handlers = [Fun 0]\<rparr>]"
  by (simp add: loader_simps path_simps example_simps backslash_heap_def)

text \<open>
  Claim C7, as the code has it. With the prefix \<open>/api\<close>, every path on the returned router
  starts with \<open>/api/\<close>, provided that no registered file has a segment \<open>.\<close> or \<open>..\<close> in the
  \<^verbatim>\<open>path\<close> read from its descriptor or in its directory relative to the root:
  \<^verbatim>\<open>path.join\<close> resolves such segments, also against the prefix.
\<close>

theorem api_prefix_heads_every_path:
  assumes "opt_prefix opts = Some ''/api''"
    and "result (loadRouters e h dir opts) = Inr router"
    and "\<forall>f d p. Registered f d p \<in> set (events (loadRouters e h dir opts)) \<longrightarrow>
           no_dot_segments d \<and>
           no_dot_segments (relative (cwd e) (absolute_path e dir) (dirname f))"
  shows "\<forall>r \<in> set router. take 5 (reg_path r) = ''/api/''"
proof
  fix r assume "r \<in> set router"
  then have "reg_path r \<in> set (registered_paths (events (loadRouters e h dir opts)))"
    using router_matches_log[OF assms(2)] by (metis image_eqI set_map)
  then obtain f d where ev: "Registered f d (reg_path r) \<in> set (events (loadRouters e h dir opts))"
    using registered_paths_set by blast
  have "reg_path r = route_path e ''/api'' (absolute_path e dir) f d" and "d \<noteq> []"
    using registered_event[OF ev] assms(1) by (simp_all add: prefix_of_def)
  moreover have "no_dot_segments d"
    "no_dot_segments (relative (cwd e) (absolute_path e dir) (dirname f))"
    using assms(3) ev by blast+
  ultimately show "take 5 (reg_path r) = ''/api/''"
    using route_path_api by simp
qed

lemma suite_api_run:
  "result (loadRouters suite_env suite_heap ''routes'' suite_api_options) =
     Inr [\<lparr>reg_path = ''/api/login'', reg_methods = Arr [Str ''post''], reg_handlers = [Fun 0]\<rparr>,
          \<lparr>reg_path = ''/api/v1/resource/:id'', reg_methods = Arr [Str ''get''], reg_handlers = [Fun 1]\<rparr>]"
  "events (loadRouters suite_env suite_heap ''routes'' suite_api_options) =
     [Access ''/srv/routes'', Readdir ''/srv/routes'',
      Import ''/srv/routes/user.login.js'',
      Registered ''/srv/routes/user.login.js'' ''/login'' ''/api/login'',
      Import ''/srv/routes/v1/resource.get.js'',
      Registered ''/srv/routes/v1/resource.get.js'' ''/resource/:id'' ''/api/v1/resource/:id'']"
  by (simp_all add: loader_simps path_simps example_simps suite_simps suite_api_options_def)

theorem api_prefix_heads_every_path_witness:
  "opt_prefix suite_api_options = Some ''/api'' \<and>
   result (loadRouters suite_env suite_heap ''routes'' suite_api_options) =
     Inr [\<lparr>reg_path = ''/api/login'', reg_methods = Arr [Str ''post''], reg_handlers = [Fun 0]\<rparr>,
          \<lparr>reg_path = ''/api/v1/resource/:id'', reg_methods = Arr [Str ''get''], reg_handlers = [Fun 1]\<rparr>] \<and>
   no_dot_segments ''/login'' \<and> no_dot_segments ''/resource/:id'' \<and>
   no_dot_segments (relative (cwd suite_env) (absolute_path suite_env ''routes'') (dirname ''/srv/routes/user.login.js'')) \<and>
   no_dot_segments (relative (cwd suite_env) (absolute_path suite_env ''routes'') (dirname ''/srv/routes/v1/resource.get.js'')) \<and>
   take 5 ''/api/login'' = ''/api/'' \<and> take 5 ''/api/v1/resource/:id'' = ''/api/''"
proof -
  have pre: "opt_prefix suite_api_options = Some ''/api''"
    by (simp add: suite_api_options_def)
  have d: "no_dot_segments ''/login''" "no_dot_segments ''/resource/:id''"
    by (simp_all add: no_dot_segments_def slash_def dot_def)
  have rel: "no_dot_segments (relative (cwd suite_env) (absolute_path suite_env ''routes'') (dirname ''/srv/routes/user.login.js''))"
    "no_dot_segments (relative (cwd suite_env) (absolute_path suite_env ''routes'') (dirname ''/srv/routes/v1/resource.get.js''))"
    by (simp_all add: no_dot_segments_def absolute_path_def path_simps example_simps suite_simps)
  have all: "\<forall>f d p. Registered f d p \<in> set (events (loadRouters suite_env suite_heap ''routes'' suite_api_options)) \<longrightarrow>
           no_dot_segments d \<and>
           no_dot_segments (relative (cwd suite_env) (absolute_path suite_env ''routes'') (dirname f))"
    using d rel by (auto simp: suite_api_run(2))
  show ?thesis
    using api_prefix_heads_every_path[OF pre suite_api_run(1) all] pre suite_api_run(1) d rel
    by simp
qed

theorem dotdot_path_leaves_prefix:
  "opt_prefix api_options = Some ''/api'' \<and>
   o_path (dotdot_heap 0) = Str ''../admin'' \<and>
   import_default login_env login_file = Inr (Obj 0) \<and>
   result (loadRouters login_env dotdot_heap ''routes'' api_options) =
     Inr [\<lparr>reg_path = ''/admin'', reg_methods = Arr [Str ''get''], reg_handlers = [Fun 0]\<rparr>]"
  by (simp add: loader_simps path_simps example_simps dotdot_heap_def)

subsection \<open>The extension of a file name\<close>

lemma extname_scan_no_dot:
  assumes "dot \<notin> set s" and "slash \<notin> set s"
  shows "extname_scan (rev s @ rest) (-1) e ms pds =
           extname_scan rest (-1)
             (if s = [] \<or> e \<noteq> -1 then e else int (length rest + length s))
             (if s = [] \<or> e \<noteq> -1 then ms else False) pds"
  using assms
proof (induction s arbitrary: rest)
  case Nil
  then show ?case by simp
next
  case (Cons a s)
  then have a: "a \<noteq> dot" "a \<noteq> slash" and s: "dot \<notin> set s" "slash \<notin> set s" by auto
  have "extname_scan (rev (a # s) @ rest) (-1) e ms pds =
        extname_scan (rev s @ a # rest) (-1) e ms pds" by simp
  also have "\<dots> = extname_scan (a # rest) (-1)
             (if s = [] \<or> e \<noteq> -1 then e else int (length (a # rest) + length s))
             (if s = [] \<or> e \<noteq> -1 then ms else False) pds"
    by (rule Cons.IH[OF s])
  also have "\<dots> = extname_scan rest (-1)
             (if e \<noteq> -1 then e else int (length rest + length (a # s)))
             (if e \<noteq> -1 then ms else False) pds"
    using a by (auto simp: Let_def algebra_simps)
  finally show ?case by simp
qed

lemma extname_scan_dot:
  "extname_scan (dot # cs) (-1) e ms pds =
     extname_scan cs (int (length cs)) (if e = -1 then int (length cs) + 1 else e)
       (if e = -1 then False else ms) pds"
  using dot_neq_slash by (simp add: Let_def)

lemma extname_scan_after_dot:
  assumes "slash \<notin> set cs" and "sd \<noteq> -1"
  shows "extname_scan cs sd e ms pds =
           (sd, 0, if e = -1 \<and> cs \<noteq> [] then int (length cs) else e,
            if cs = [] then pds else if last cs = dot then 1 else -1)"
  using assms
proof (induction cs arbitrary: e ms pds)
  case Nil
  then show ?case by simp
next
  case (Cons c cs)
  then have c: "c \<noteq> slash" and cs: "slash \<notin> set cs" by auto
  let ?e2 = "if e = -1 then int (length cs) + 1 else e"
  let ?ms2 = "if e = -1 then False else ms"
  let ?pds2 = "if c = dot then 1 else (-1::int)"
  have "extname_scan (c # cs) sd e ms pds = extname_scan cs sd ?e2 ?ms2 ?pds2"
    using c Cons.prems(2) by (auto simp: Let_def)
  also have "\<dots> = (sd, 0, if ?e2 = -1 \<and> cs \<noteq> [] then int (length cs) else ?e2,
            if cs = [] then ?pds2 else if last cs = dot then 1 else -1)"
    by (rule Cons.IH[OF cs Cons.prems(2)])
  finally show ?case by auto
qed

lemma last_dot_suffix_split:
  "dot \<notin> set suf \<Longrightarrow> last_dot_suffix (pre @ dot # suf) = dot # suf"
  by (induction pre) auto

lemma last_dot_suffix_no_dot: "dot \<notin> set n \<Longrightarrow> last_dot_suffix n = []"
  by (induction n) auto

lemma split_at_last_dot:
  assumes "dot \<in> set n"
  obtains pre suf where "n = pre @ dot # suf" "dot \<notin> set suf"
  using assms split_list_last by fastforce

lemma extname_no_dot:
  assumes "slash \<notin> set n" and "dot \<notin> set n"
  shows "extname n = []"
proof -
  show ?thesis
    using extname_scan_no_dot[OF assms(2,1), of "[]" "-1" True 0]
    by (simp add: extname_def)
qed

lemma extname_with_dot:
  assumes "slash \<notin> set pre" and "slash \<notin> set suf" and "dot \<notin> set suf"
  shows "extname (pre @ dot # suf) =
           (if pre = [] \<or> (pre = [dot] \<and> suf = []) then [] else dot # suf)"
proof -
  let ?n = "pre @ dot # suf"
  let ?len = "int (length pre) + 1 + int (length suf)"
  have "extname_scan (rev ?n) (-1) (-1) True 0 =
        extname_scan (rev suf @ dot # rev pre) (-1) (-1) True 0" by simp
  also have "\<dots> = extname_scan (dot # rev pre) (-1)
             (if suf = [] then -1 else ?len) (if suf = [] then True else False) 0"
    using extname_scan_no_dot[OF assms(3,2), of "dot # rev pre" "-1" True 0]
    by (simp del: extname_scan.simps add: algebra_simps)
  also have "\<dots> = extname_scan (rev pre) (int (length pre)) ?len False 0"
    by (simp only: extname_scan_dot) (simp del: extname_scan.simps)
  also have "\<dots> = (int (length pre), 0, ?len,
            if rev pre = [] then 0 else if last (rev pre) = dot then 1 else -1)"
    using extname_scan_after_dot[of "rev pre" "int (length pre)" ?len False 0] assms(1) by simp
  finally have scan: "extname_scan (rev ?n) (-1) (-1) True 0 =
      (int (length pre), 0, ?len, if pre = [] then 0 else if hd pre = dot then 1 else -1)"
    by (simp add: last_rev)
  show ?thesis
  proof (cases "pre = []")
    case True
    with scan show ?thesis by (simp add: extname_def)
  next
    case False
    show ?thesis
    proof (cases "pre = [dot] \<and> suf = []")
      case True
      with scan show ?thesis by (simp add: extname_def)
    next
      case ndd: False
      have one: "length pre = 1 \<Longrightarrow> pre = [hd pre]"
        by (cases pre) auto
      have cond: "\<not> (hd pre = dot \<and> suf = [] \<and> length pre = 1)"
        using ndd one by auto
      have n1: "nat (int (length pre) + 1 + int (length suf) - int (length pre)) = Suc (length suf)"
        by simp
      have "extname ?n = take (Suc (length suf)) (drop (length pre) ?n)"
        unfolding extname_def scan using False cond by (auto simp: n1)
      also have "\<dots> = dot # suf" by simp
      finally show ?thesis using False ndd by simp
    qed
  qed
qed

lemma extname_name_extension:
  assumes "slash \<notin> set n"
  shows "extname n = name_extension n"
proof (cases "dot \<in> set n")
  case False
  with assms show ?thesis
    by (simp add: extname_no_dot name_extension_def last_dot_suffix_no_dot)
next
  case True
  then obtain pre suf where n: "n = pre @ dot # suf" "dot \<notin> set suf"
    by (rule split_at_last_dot)
  with assms have "slash \<notin> set pre" "slash \<notin> set suf" by auto
  then have "extname n = (if pre = [] \<or> (pre = [dot] \<and> suf = []) then [] else dot # suf)"
    unfolding n(1) using n(2) by (rule extname_with_dot)
  moreover have "last_dot_suffix n = dot # suf"
    unfolding n(1) using n(2) by (rule last_dot_suffix_split)
  moreover have "(dot # suf = n) = (pre = [])" using n(1) by auto
  moreover have "(n = [dot, dot]) = (pre = [dot] \<and> suf = [])"
  proof
    assume "n = [dot, dot]"
    with n show "pre = [dot] \<and> suf = []"
      by (cases pre; cases suf) (auto simp: Cons_eq_append_conv)
  next
    assume "pre = [dot] \<and> suf = []"
    with n(1) show "n = [dot, dot]" by simp
  qed
  ultimately show ?thesis by (simp add: name_extension_def)
qed

subsection \<open>Discovery\<close>

lemma discovered_by_name_extension:
  assumes "\<forall>p \<in> set ents. slash \<notin> set (d_name p)"
  shows "discovered exts ents =
           map (\<lambda>p. join [d_parentPath p, d_name p])
             (filter (\<lambda>p. d_type p = RegularFile \<and> name_extension (d_name p) \<in> set exts) ents)"
proof -
  have "filter (\<lambda>p. isFile p \<and> extname (d_name p) \<in> set exts) ents =
        filter (\<lambda>p. d_type p = RegularFile \<and> name_extension (d_name p) \<in> set exts) ents"
    using assms by (intro filter_cong) (auto simp: isFile_def extname_name_extension)
  then show ?thesis by (simp add: discovered_def)
qed

lemma some_test_length: "length (snd (some_test ps f)) = length ps"
  by (induction ps) (auto split: prod.splits bool.splits)

lemma ignore_filter_subset: "set (fst (ignore_filter ps fs)) \<subseteq> set fs"
proof (induction fs arbitrary: ps)
  case Nil
  then show ?case by simp
next
  case (Cons f fs)
  obtain b ps' where t: "some_test ps f = (b, ps')" by (cases "some_test ps f")
  obtain kept ps'' where k: "ignore_filter ps' fs = (kept, ps'')" by (cases "ignore_filter ps' fs")
  have "set kept \<subseteq> set fs" using Cons.IH[of ps'] k by simp
  with t k show ?case by auto
qed

lemma imported_step:
  assumes "process_file e pre root st g = (r, st')"
  shows "imported_files (log_of st') = imported_files (log_of st) @ [g] \<and>
         set (registered_files (log_of st')) \<subseteq> set (registered_files (log_of st)) \<union> {g}"
  using assms
  by (cases rule: process_file_cases[of e g pre root st]) auto

lemma imported_are_filtered:
  assumes "fs_access e (absolute_path e dir)"
    and "fs_readdir e (absolute_path e dir) = Inr ents"
  shows "set (registered_files (events (loadRouters e h dir opts)))
           \<subseteq> set (imported_files (events (loadRouters e h dir opts))) \<and>
         set (imported_files (events (loadRouters e h dir opts))) \<subseteq> set (filteredFiles opts ents)"
proof -
  let ?P = "\<lambda>st. set (registered_files (log_of st)) \<subseteq> set (imported_files (log_of st)) \<and>
                 set (imported_files (log_of st)) \<subseteq> set (filteredFiles opts ents)"
  have "?P (snd (loop_end e h dir opts ents))"
    unfolding loop_end_def
  proof (rule process_files_invariant)
    show "?P (loop_start e h dir)" by (simp add: loop_start_def)
  next
    fix st g r st'
    assume P: "?P st" and g: "g \<in> set (filteredFiles opts ents)"
      and step: "process_file e (prefix_of opts) (absolute_path e dir) st g = (r, st')"
    from imported_step[OF step] P g show "?P st'" by auto
  qed
  then show ?thesis
    using loadRouters_listed(3)[OF assms, where h = h and opts = opts] by simp
qed

text \<open>
  Claim C9, as the code has it. Let the listed names be single path components. The files
  kept by line 65 are exactly the entries that are regular files and whose extension is in
  \<^verbatim>\<open>fileExtensions\<close>, where the extension is what \<^verbatim>\<open>path.extname\<close> computes: the suffix
  from the last \<open>.\<close> of the name, but empty when the name has no \<open>.\<close>, when its only \<open>.\<close> is
  its first character, and for \<open>..\<close>. Only these files are imported, and only imported
  files are registered.
\<close>

theorem discovery_keeps_regular_files_by_extname:
  assumes "fs_access e (absolute_path e dir)"
    and "fs_readdir e (absolute_path e dir) = Inr ents"
    and "\<forall>p \<in> set ents. slash \<notin> set (d_name p)"
  shows "discovered (fileExtensions_of opts) ents =
           map (\<lambda>p. join [d_parentPath p, d_name p])
             (filter (\<lambda>p. d_type p = RegularFile \<and>
                          name_extension (d_name p) \<in> set (fileExtensions_of opts)) ents) \<and>
         set (registered_files (events (loadRouters e h dir opts)))
           \<subseteq> set (imported_files (events (loadRouters e h dir opts))) \<and>
         set (imported_files (events (loadRouters e h dir opts)))
           \<subseteq> set (discovered (fileExtensions_of opts) ents)"
proof -
  have "set (filteredFiles opts ents) \<subseteq> set (discovered (fileExtensions_of opts) ents)"
    unfolding filteredFiles_def by (rule ignore_filter_subset)
  with imported_are_filtered[OF assms(1,2), where h = h and opts = opts]
    discovered_by_name_extension[OF assms(3), where exts = "fileExtensions_of opts"]
  show ?thesis by blast
qed

theorem discovery_keeps_regular_files_by_extname_witness:
  "fs_access suite_env (absolute_path suite_env ''routes'') \<and>
   fs_readdir suite_env (absolute_path suite_env ''routes'') = Inr suite_entries \<and>
   list_all (\<lambda>p. slash \<notin> set (d_name p)) suite_entries \<and>
   discovered (fileExtensions_of suite_options) suite_entries =
     [''/srv/routes/user.login.js'', ''/srv/routes/v1/resource.get.js'', ''/srv/routes/ignore.test.js''] \<and>
   set (imported_files (events (loadRouters suite_env suite_heap ''routes'' suite_options)))
     \<subseteq> {''/srv/routes/user.login.js'', ''/srv/routes/v1/resource.get.js'', ''/srv/routes/ignore.test.js''}"
proof -
  have a: "fs_access suite_env (absolute_path suite_env ''routes'')"
    and l: "fs_readdir suite_env (absolute_path suite_env ''routes'') = Inr suite_entries"
    by (simp_all add: suite_listed)
  have n: "\<forall>p \<in> set suite_entries. slash \<notin> set (d_name p)"
    by (simp add: suite_entries_def file_entry_def slash_def)
  have d: "discovered (fileExtensions_of suite_options) suite_entries =
     [''/srv/routes/user.login.js'', ''/srv/routes/v1/resource.get.js'', ''/srv/routes/ignore.test.js'']"
    by (simp add: loader_simps path_simps example_simps suite_simps)
  show ?thesis
    using discovery_keeps_regular_files_by_extname[OF a l n, where h = suite_heap and opts = suite_options] a l n d
    by (simp add: list_all_iff)
qed

theorem dotfile_named_js_is_dropped:
  "fs_readdir dotfile_env ''/srv/routes'' = Inr [file_entry ''/srv/routes'' ''.js''] \<and>
   d_type (file_entry ''/srv/routes'' ''.js'') = RegularFile \<and>
   last_dot_suffix ''.js'' = ''.js'' \<and>
   ''.js'' \<in> set (fileExtensions_of no_options) \<and>
   discovered (fileExtensions_of no_options) [file_entry ''/srv/routes'' ''.js''] = [] \<and>
   events (loadRouters dotfile_env login_heap ''routes'' no_options) =
     [Access ''/srv/routes'', Readdir ''/srv/routes''] \<and>
   result (loadRouters dotfile_env login_heap ''routes'' no_options) = Inr []"
  by (simp add: loader_simps path_simps example_simps dotfile_env_def)

subsection \<open>Ignore patterns\<close>

text \<open>
  Claim C8 at the input where it fails. A pattern with the \<^verbatim>\<open>g\<close> flag remembers in
  \<^verbatim>\<open>lastIndex\<close> where its last match ended. After \<open>a.test.js\<close> matched, the test of
  \<open>b.test.js\<close> starts at the end of the string and fails, so the second file is imported
  and registered although the pattern matches its path.
\<close>

theorem global_pattern_misses_second_file:
  "rx_matches global_test_js ''/srv/routes/a.test.js'' \<and>
   rx_matches global_test_js ''/srv/routes/b.test.js'' \<and>
   imported_files (events (loadRouters two_tests_env suite_heap ''routes'' global_options)) =
     [''/srv/routes/b.test.js''] \<and>
   result (loadRouters two_tests_env suite_heap ''routes'' global_options) =
     Inr [\<lparr>reg_path = ''/resource/:id'', reg_methods = Arr [Str ''get''], reg_handlers = [Fun 1]\<rparr>]"
  by (simp add: rx_matches_def global_test_js_def global_options_def two_tests_env_def
        loader_simps path_simps example_simps suite_simps)

text \<open>Patterns without the \<^verbatim>\<open>g\<close> and \<^verbatim>\<open>y\<close> flags keep no state: then a file that one of
  them matches is never imported and never registered.\<close>

lemma some_test_stateless:
  assumes "\<forall>r \<in> set ps. \<not> rx_stateful r"
  shows "some_test ps f = (\<exists>r \<in> set ps. rx_matches r f, ps)"
  using assms
  by (induction ps) (auto simp: rx_test_def rx_matches_def split: prod.splits bool.splits)

lemma ignore_filter_stateless:
  assumes "\<forall>r \<in> set ps. \<not> rx_stateful r"
  shows "ignore_filter ps fs = (filter (\<lambda>f. \<not> (\<exists>r \<in> set ps. rx_matches r f)) fs, ps)"
  using assms
  by (induction fs) (auto simp: some_test_stateless)

lemma stateless_patterns_exclude_matches:
  assumes "\<forall>r \<in> set (ignorePatterns_of opts). \<not> rx_stateful r"
    and "r \<in> set (ignorePatterns_of opts)"
    and "rx_matches r f"
  shows "f \<notin> set (imported_files (events (loadRouters e h dir opts))) \<and>
         f \<notin> set (registered_files (events (loadRouters e h dir opts)))"
proof (cases "fs_access e (absolute_path e dir)")
  case False
  then show ?thesis by (simp add: loadRouters_def Let_def)
next
  case True
  show ?thesis
  proof (cases "fs_readdir e (absolute_path e dir)")
    case (Inl msg)
    with True show ?thesis by (simp add: loadRouters_def Let_def)
  next
    case (Inr ents)
    have "f \<notin> set (filteredFiles opts ents)"
      using assms by (auto simp: filteredFiles_def ignore_filter_stateless)
    with imported_are_filtered[OF True Inr, where h = h and opts = opts] show ?thesis by blast
  qed
qed

lemma stateless_patterns_exclude_matches_witness:
  "list_all (\<lambda>r. \<not> rx_stateful r) (ignorePatterns_of suite_options) \<and>
   ends_with_test_js \<in> set (ignorePatterns_of suite_options) \<and>
   rx_matches ends_with_test_js ''/srv/routes/ignore.test.js'' \<and>
   ''/srv/routes/ignore.test.js''
      \<notin> set (imported_files (events (loadRouters suite_env suite_heap ''routes'' suite_options)))"
proof -
  have 1: "\<forall>r \<in> set (ignorePatterns_of suite_options). \<not> rx_stateful r"
    and 2: "ends_with_test_js \<in> set (ignorePatterns_of suite_options)"
    and 3: "rx_matches ends_with_test_js ''/srv/routes/ignore.test.js''"
    by (simp_all add: ignorePatterns_of_def suite_options_def ends_with_test_js_def rx_matches_def)
  show ?thesis
    using stateless_patterns_exclude_matches[OF 1 2 3, where e = suite_env and h = suite_heap and dir = "''routes''"] 1 2 3
    by (simp add: list_all_iff)
qed

lemma caught_failures_yield_router_witness:
  "fs_access suite_env (absolute_path suite_env ''routes'') \<and>
   fs_readdir suite_env (absolute_path suite_env ''routes'') = Inr suite_entries \<and>
   (\<exists>router. result (loadRouters suite_env blank_heap ''routes'' no_options) = Inr router)"
proof -
  have a: "fs_access suite_env (absolute_path suite_env ''routes'')"
    and l: "fs_readdir suite_env (absolute_path suite_env ''routes'') = Inr suite_entries"
    by (simp_all add: suite_listed)
  have i: "\<And>f ex. import_default suite_env f = Inl ex \<Longrightarrow> message_readable ex"
    by (auto simp: suite_env_def example_env_def split: if_splits)
  have t: "\<And>p m hs ex. register_throws suite_env p m hs = Some ex \<Longrightarrow> message_readable ex"
    by (auto simp: suite_env_def example_env_def layer_throws_def split: if_splits)
  show ?thesis
    using caught_failures_yield_router[OF a l i t, where h = blank_heap and opts = no_options] a l by simp
qed

lemma store_frame_witness:
  "list_all (\<lambda>f. import_default suite_env f \<noteq> Inr (Obj 2))
     (imported_files (events (loadRouters suite_env suite_heap ''routes'' suite_options))) \<and>
   heap_after (loadRouters suite_env suite_heap ''routes'' suite_options) 2 = suite_heap 2"
proof -
  have "\<forall>f \<in> set (imported_files (events (loadRouters suite_env suite_heap ''routes'' suite_options))).
      import_default suite_env f \<noteq> Inr (Obj 2)"
    by (simp add: suite_events) (simp add: suite_env_def example_env_def)
  then show ?thesis
    using store_frame[where e = suite_env and h = suite_heap and dir = "''routes''" and opts = suite_options and b = 2]
    by (simp add: list_all_iff)
qed

subsection \<open>The root directory\<close>

text \<open>
  Claim C3, as the code has it. The first thing every invocation does is the check of
  line 59 on the resolved directory, which is absolute whenever the working directory is.
  The check is \<^verbatim>\<open>fs.access\<close> without a mode, a test of existence. When it fails, the
  invocation rejects with the error that carries the resolved path, returns no router, and
  has done nothing else: no listing, no import, no registration, no write to the store. A
  directory that passes the check but cannot be listed is found out only by the listing of
  line 64: the invocation then rejects with the listing's own error, after the listing was
  attempted, and still without an import, a registration or a write to the store.
\<close>

theorem directory_failures_reject:
  "(\<exists>evs. events (loadRouters e h dir opts) = Access (absolute_path e dir) # evs) \<and>
   (isAbsolute (cwd e) \<longrightarrow> isAbsolute (absolute_path e dir)) \<and>
   (\<not> fs_access e (absolute_path e dir) \<longrightarrow>
      result (loadRouters e h dir opts) = Inl (DirectoryNotFound (absolute_path e dir)) \<and>
      events (loadRouters e h dir opts) = [Access (absolute_path e dir)] \<and>
      heap_after (loadRouters e h dir opts) = h) \<and>
   (\<forall>msg. fs_access e (absolute_path e dir) \<and> fs_readdir e (absolute_path e dir) = Inl msg \<longrightarrow>
      result (loadRouters e h dir opts) = Inl (ReaddirFailed msg) \<and>
      events (loadRouters e h dir opts) =
        [Access (absolute_path e dir), Readdir (absolute_path e dir)] \<and>
      heap_after (loadRouters e h dir opts) = h)"
  using loadRouters_first_event[of e h dir opts] absolute_path_absolute[of e dir]
  by (auto simp: loadRouters_def Let_def)

theorem directory_failures_reject_witness:
  "isAbsolute (cwd locked_env) \<and>
   absolute_path locked_env ''missing'' = ''/srv/missing'' \<and>
   \<not> fs_access locked_env (absolute_path locked_env ''missing'') \<and>
   result (loadRouters locked_env login_heap ''missing'' no_options) =
     Inl (DirectoryNotFound ''/srv/missing'') \<and>
   events (loadRouters locked_env login_heap ''missing'' no_options) = [Access ''/srv/missing''] \<and>
   absolute_path locked_env ''locked'' = ''/srv/locked'' \<and>
   fs_access locked_env (absolute_path locked_env ''locked'') \<and>
   fs_readdir locked_env (absolute_path locked_env ''locked'') =
     Inl ''EACCES: permission denied, scandir'' \<and>
   result (loadRouters locked_env login_heap ''locked'' no_options) =
     Inl (ReaddirFailed ''EACCES: permission denied, scandir'')"
proof -
  have ab: "isAbsolute (cwd locked_env)"
    by (simp add: isAbsolute_def slash_def locked_env_def)
  have m: "absolute_path locked_env ''missing'' = ''/srv/missing''"
    and l: "absolute_path locked_env ''locked'' = ''/srv/locked''"
    by (simp_all add: absolute_path_def path_simps locked_env_def)
  have na: "\<not> fs_access locked_env (absolute_path locked_env ''missing'')"
    unfolding m by (simp add: locked_env_def)
  have a: "fs_access locked_env (absolute_path locked_env ''locked'')"
    unfolding l by (simp add: locked_env_def)
  have r: "fs_readdir locked_env (absolute_path locked_env ''locked'') =
     Inl ''EACCES: permission denied, scandir''"
    by (simp add: locked_env_def)
  from directory_failures_reject[of locked_env login_heap "''missing''" no_options] na m
  have 1: "result (loadRouters locked_env login_heap ''missing'' no_options) =
     Inl (DirectoryNotFound ''/srv/missing'')"
    "events (loadRouters locked_env login_heap ''missing'' no_options) = [Access ''/srv/missing'']"
    by simp_all
  from directory_failures_reject[of locked_env login_heap "''locked''" no_options] a r
  have 2: "result (loadRouters locked_env login_heap ''locked'' no_options) =
     Inl (ReaddirFailed ''EACCES: permission denied, scandir'')"
    by blast
  from ab m na 1 l a r 2 show ?thesis by simp
qed

theorem unreadable_directory_passes_the_check:
  "absolute_path locked_env ''locked'' = ''/srv/locked'' \<and>
   fs_access locked_env ''/srv/locked'' \<and>
   fs_readdir locked_env ''/srv/locked'' = Inl ''EACCES: permission denied, scandir'' \<and>
   result (loadRouters locked_env login_heap ''locked'' no_options) =
     Inl (ReaddirFailed ''EACCES: permission denied, scandir'') \<and>
   events (loadRouters locked_env login_heap ''locked'' no_options) =
     [Access ''/srv/locked'', Readdir ''/srv/locked'']"
  by (simp add: loadRouters_def absolute_path_def Let_def path_simps locked_env_def)

subsection \<open>Eligible files with valid descriptors\<close>

lemma filteredFiles_eligible:
  assumes "\<forall>p \<in> set ents. slash \<notin> set (d_name p)"
    and "\<forall>r \<in> set (ignorePatterns_of opts). \<not> rx_stateful r"
  shows "filteredFiles opts ents = eligible_files opts ents"
proof -
  have "filteredFiles opts ents =
        filter (\<lambda>f. \<not> (\<exists>r \<in> set (ignorePatterns_of opts). rx_matches r f))
          (discovered (fileExtensions_of opts) ents)"
    using assms(2) by (simp add: filteredFiles_def ignore_filter_stateless)
  also have "discovered (fileExtensions_of opts) ents =
        map full_path
          (filter (\<lambda>p. d_type p = RegularFile \<and>
                       name_extension (d_name p) \<in> set (fileExtensions_of opts)) ents)"
    using discovered_by_name_extension[OF assms(1)] by (simp add: full_path_def[abs_def])
  finally show ?thesis
    by (simp add: eligible_files_def filter_map comp_def list_ex_iff conj_ac)
qed

lemma registrable_step:
  assumes "registrable e pre root (heap_of st) f"
  shows "\<exists>a d hs. import_default e f = Inr (Obj a) \<and> o_path (heap_of st a) = Str d \<and>
           process_file e pre root st f =
             (None,
              st\<lparr>heap_of := (heap_of st)(a := (heap_of st a)\<lparr>o_path := Str (route_path e pre root f d)\<rparr>),
                 router_of := router_of st @
                   [\<lparr>reg_path = route_path e pre root f d, reg_methods = o_methods (heap_of st a),
                     reg_handlers = hs\<rparr>],
                 log_of := (log_of st @ [Import f]) @ [Registered f d (route_path e pre root f d)]\<rparr>)"
proof -
  from assms obtain a where a: "import_default e f = Inr (Obj a)"
    by (auto simp: registrable_def split: sum.splits jsval.splits)
  with assms have v: "valid_descriptor (heap_of st a)" and nf: "\<not> o_frozen (heap_of st a)"
    by (auto simp: registrable_def)
  from v obtain d ms hs where shape: "o_path (heap_of st a) = Str d" "d \<noteq> []"
    "o_methods (heap_of st a) = Arr ms" "o_handlers (heap_of st a) = Arr hs"
    by (auto simp: valid_descriptor_def split: jsval.splits)
  have acc: "register_throws e (route_path e pre root f d) (o_methods (heap_of st a)) hs = None"
    using assms a shape by (simp add: registrable_def)
  have "process_file e pre root st f =
             (None,
              st\<lparr>heap_of := (heap_of st)(a := (heap_of st a)\<lparr>o_path := Str (route_path e pre root f d)\<rparr>),
                 router_of := router_of st @
                   [\<lparr>reg_path = route_path e pre root f d, reg_methods = o_methods (heap_of st a),
                     reg_handlers = hs\<rparr>],
                 log_of := (log_of st @ [Import f]) @ [Registered f d (route_path e pre root f d)]\<rparr>)"
    using a shape nf acc
    by (cases rule: process_file_cases[of e f pre root st]) (auto simp: invalid_export_def)
  with a shape(1) show ?thesis by blast
qed

lemma registrable_heap_cong:
  assumes "import_default e f = Inr (Obj a)" and "h' a = h a"
  shows "registrable e pre root h' f = registrable e pre root h f"
    and "expected_path e pre root h' f = expected_path e pre root h f"
  using assms
  by (auto simp: registrable_def expected_path_def split: jsval.splits sum.splits)

lemma registrable_files:
  assumes "distinct fs"
    and "inj_on (import_default e) (set fs)"
    and "\<forall>f \<in> set fs. registrable e pre root h f"
    and "\<forall>f \<in> set fs. \<forall>a. import_default e f = Inr (Obj a) \<longrightarrow> heap_of st a = h a"
  shows "\<exists>st'. process_files e pre root st fs = (None, st') \<and>
           registered_files (log_of st') = registered_files (log_of st) @ fs \<and>
           map reg_path (router_of st') =
             map reg_path (router_of st) @ map (expected_path e pre root h) fs"
  using assms
proof (induction fs arbitrary: st)
  case Nil
  then show ?case by simp
next
  case (Cons f fs)
  from Cons.prems(3) have rf: "registrable e pre root h f" by simp
  then obtain a where a: "import_default e f = Inr (Obj a)"
    by (auto simp: registrable_def split: sum.splits jsval.splits)
  have same: "heap_of st a = h a" using Cons.prems(4) a by simp
  have "registrable e pre root (heap_of st) f"
    using rf registrable_heap_cong(1)[where h' = "heap_of st" and h = h, OF a same] by simp
  from registrable_step[OF this] a obtain d hs where
    d: "o_path (heap_of st a) = Str d"
    and step: "process_file e pre root st f =
             (None,
              st\<lparr>heap_of := (heap_of st)(a := (heap_of st a)\<lparr>o_path := Str (route_path e pre root f d)\<rparr>),
                 router_of := router_of st @
                   [\<lparr>reg_path = route_path e pre root f d, reg_methods = o_methods (heap_of st a),
                     reg_handlers = hs\<rparr>],
                 log_of := (log_of st @ [Import f]) @ [Registered f d (route_path e pre root f d)]\<rparr>)"
    by auto
  let ?st1 = "st\<lparr>heap_of := (heap_of st)(a := (heap_of st a)\<lparr>o_path := Str (route_path e pre root f d)\<rparr>),
                 router_of := router_of st @
                   [\<lparr>reg_path = route_path e pre root f d, reg_methods = o_methods (heap_of st a),
                     reg_handlers = hs\<rparr>],
                 log_of := (log_of st @ [Import f]) @ [Registered f d (route_path e pre root f d)]\<rparr>"
  have exp: "expected_path e pre root h f = route_path e pre root f d"
    using a d same by (simp add: expected_path_def)
  have untouched: "\<forall>g \<in> set fs. \<forall>b. import_default e g = Inr (Obj b) \<longrightarrow> heap_of ?st1 b = h b"
  proof (intro ballI allI impI)
    fix g b assume g: "g \<in> set fs" and b: "import_default e g = Inr (Obj b)"
    have "g \<noteq> f" using g Cons.prems(1) by auto
    then have "import_default e g \<noteq> import_default e f"
      using Cons.prems(2) g by (auto simp: inj_on_def)
    then have "b \<noteq> a" using a b by auto
    then show "heap_of ?st1 b = h b" using Cons.prems(4) g b by simp
  qed
  have "\<exists>st'. process_files e pre root ?st1 fs = (None, st') \<and>
           registered_files (log_of st') = registered_files (log_of ?st1) @ fs \<and>
           map reg_path (router_of st') =
             map reg_path (router_of ?st1) @ map (expected_path e pre root h) fs"
  proof (rule Cons.IH)
    show "distinct fs" using Cons.prems(1) by simp
    show "inj_on (import_default e) (set fs)" using Cons.prems(2) by (simp add: inj_on_def)
    show "\<forall>f \<in> set fs. registrable e pre root h f" using Cons.prems(3) by simp
    show "\<forall>g \<in> set fs. \<forall>b. import_default e g = Inr (Obj b) \<longrightarrow> heap_of ?st1 b = h b"
      by (rule untouched)
  qed
  then obtain st' where st': "process_files e pre root ?st1 fs = (None, st')"
    "registered_files (log_of st') = registered_files (log_of ?st1) @ fs"
    "map reg_path (router_of st') =
             map reg_path (router_of ?st1) @ map (expected_path e pre root h) fs"
    by blast
  have "process_files e pre root st (f # fs) = (None, st')"
    using step st'(1) by simp
  moreover have "registered_files (log_of st') = registered_files (log_of st) @ f # fs"
    using st'(2) by simp
  moreover have "map reg_path (router_of st') =
             map reg_path (router_of st) @ map (expected_path e pre root h) (f # fs)"
    using st'(3) exp by simp
  ultimately show ?case by blast
qed

text \<open>
  Claim C6, as the code has it. Let the listing hold \<open>N\<close> eligible files: distinct full
  paths of regular files with a listed extension that no ignore pattern matches, the
  patterns being without the \<^verbatim>\<open>g\<close> and \<^verbatim>\<open>y\<close> flags. Let each of them export its own object,
  one that meets the route file contract, whose \<^verbatim>\<open>path\<close> can be assigned and whose
  registration under the path computed for the file the router accepts. Then the invocation
  returns a router with exactly \<open>N\<close> entries, registered in listing order, the entry of
  each file under the path computed from the prefix, the file's relative directory and
  the path the file declared.
\<close>

theorem registers_every_eligible_file:
  assumes "fs_access e (absolute_path e dir)"
    and "fs_readdir e (absolute_path e dir) = Inr ents"
    and "\<forall>p \<in> set ents. slash \<notin> set (d_name p)"
    and "\<forall>r \<in> set (ignorePatterns_of opts). \<not> rx_stateful r"
    and "distinct (eligible_files opts ents)"
    and "inj_on (import_default e) (set (eligible_files opts ents))"
    and "\<forall>f \<in> set (eligible_files opts ents).
           registrable e (prefix_of opts) (absolute_path e dir) h f"
  shows "\<exists>router. result (loadRouters e h dir opts) = Inr router \<and>
           length router = length (eligible_files opts ents) \<and>
           map reg_path router =
             map (expected_path e (prefix_of opts) (absolute_path e dir) h) (eligible_files opts ents) \<and>
           registered_files (events (loadRouters e h dir opts)) = eligible_files opts ents"
proof -
  have ff: "filteredFiles opts ents = eligible_files opts ents"
    using assms(3,4) by (rule filteredFiles_eligible)
  have "\<exists>st'. process_files e (prefix_of opts) (absolute_path e dir) (loop_start e h dir)
                 (eligible_files opts ents) = (None, st') \<and>
           registered_files (log_of st') =
             registered_files (log_of (loop_start e h dir)) @ eligible_files opts ents \<and>
           map reg_path (router_of st') =
             map reg_path (router_of (loop_start e h dir)) @
             map (expected_path e (prefix_of opts) (absolute_path e dir) h) (eligible_files opts ents)"
    by (rule registrable_files[OF assms(5,6,7)]) (simp add: loop_start_def)
  then obtain st' where st': "loop_end e h dir opts ents = (None, st')"
    "registered_files (log_of st') = eligible_files opts ents"
    "map reg_path (router_of st') =
       map (expected_path e (prefix_of opts) (absolute_path e dir) h) (eligible_files opts ents)"
    by (auto simp: loop_end_def loop_start_def ff)
  have res: "result (loadRouters e h dir opts) = Inr (router_of st')"
    and ev: "events (loadRouters e h dir opts) = log_of st'"
    using loadRouters_listed[OF assms(1,2), of h opts] st'(1) by simp_all
  have "length (router_of st') = length (eligible_files opts ents)"
    using st'(3) by (metis length_map)
  with res ev st' show ?thesis by simp
qed

lemma suite_eligible:
  "eligible_files suite_options suite_entries =
     [''/srv/routes/user.login.js'', ''/srv/routes/v1/resource.get.js'']"
  by (simp add: eligible_files_def full_path_def name_extension_def rx_matches_def
        fileExtensions_of_def ignorePatterns_of_def path_simps example_simps suite_simps)

theorem registers_every_eligible_file_witness:
  "fs_access suite_env (absolute_path suite_env ''routes'') \<and>
   fs_readdir suite_env (absolute_path suite_env ''routes'') = Inr suite_entries \<and>
   list_all (\<lambda>p. slash \<notin> set (d_name p)) suite_entries \<and>
   list_all (\<lambda>r. \<not> rx_stateful r) (ignorePatterns_of suite_options) \<and>
   eligible_files suite_options suite_entries =
     [''/srv/routes/user.login.js'', ''/srv/routes/v1/resource.get.js''] \<and>
   import_default suite_env ''/srv/routes/user.login.js'' = Inr (Obj 0) \<and>
   import_default suite_env ''/srv/routes/v1/resource.get.js'' = Inr (Obj 1) \<and>
   registrable suite_env (prefix_of suite_options) (absolute_path suite_env ''routes'') suite_heap
     ''/srv/routes/user.login.js'' \<and>
   registrable suite_env (prefix_of suite_options) (absolute_path suite_env ''routes'') suite_heap
     ''/srv/routes/v1/resource.get.js'' \<and>
   (\<exists>router. result (loadRouters suite_env suite_heap ''routes'' suite_options) = Inr router \<and>
      length router = 2 \<and>
      map reg_path router = [''/login'', ''/v1/resource/:id''] \<and>
      registered_files (events (loadRouters suite_env suite_heap ''routes'' suite_options)) =
        [''/srv/routes/user.login.js'', ''/srv/routes/v1/resource.get.js''])"
proof -
  have a: "fs_access suite_env (absolute_path suite_env ''routes'')"
    and l: "fs_readdir suite_env (absolute_path suite_env ''routes'') = Inr suite_entries"
    by (simp_all add: suite_listed)
  have n: "\<forall>p \<in> set suite_entries. slash \<notin> set (d_name p)"
    by (simp add: suite_entries_def file_entry_def slash_def)
  have s: "\<forall>r \<in> set (ignorePatterns_of suite_options). \<not> rx_stateful r"
    by (simp add: ignorePatterns_of_def suite_options_def ends_with_test_js_def)
  have i0: "import_default suite_env ''/srv/routes/user.login.js'' = Inr (Obj 0)"
    and i1: "import_default suite_env ''/srv/routes/v1/resource.get.js'' = Inr (Obj 1)"
    by (simp_all add: suite_env_def example_env_def)
  have dist: "distinct (eligible_files suite_options suite_entries)"
    by (simp add: suite_eligible)
  have inj: "inj_on (import_default suite_env) (set (eligible_files suite_options suite_entries))"
    by (simp add: suite_eligible i0 i1)
  have p0: "route_path suite_env [] ''/srv/routes'' ''/srv/routes/user.login.js'' ''/login'' = ''/login''"
    and p1: "route_path suite_env [] ''/srv/routes'' ''/srv/routes/v1/resource.get.js'' ''/resource/:id''
               = ''/v1/resource/:id''"
    by (simp_all add: route_path_def Let_def path_simps suite_env_def example_env_def)
  have pre: "prefix_of suite_options = []"
    by (simp add: prefix_of_def suite_options_def)
  have r0: "registrable suite_env (prefix_of suite_options) (absolute_path suite_env ''routes'') suite_heap
     ''/srv/routes/user.login.js''"
    by (simp add: registrable_def i0 pre suite_listed p0 valid_descriptor_def suite_heap_def
          descriptor_def)
       (simp add: suite_env_def example_env_def layer_throws_def slash_def)
  have r1: "registrable suite_env (prefix_of suite_options) (absolute_path suite_env ''routes'') suite_heap
     ''/srv/routes/v1/resource.get.js''"
    by (simp add: registrable_def i1 pre suite_listed p1 valid_descriptor_def suite_heap_def
          descriptor_def)
       (simp add: suite_env_def example_env_def layer_throws_def slash_def)
  have all: "\<forall>f \<in> set (eligible_files suite_options suite_entries).
           registrable suite_env (prefix_of suite_options) (absolute_path suite_env ''routes'') suite_heap f"
    using r0 r1 by (simp add: suite_eligible)
  have e0: "expected_path suite_env (prefix_of suite_options) (absolute_path suite_env ''routes'') suite_heap
              ''/srv/routes/user.login.js'' = ''/login''"
    and e1: "expected_path suite_env (prefix_of suite_options) (absolute_path suite_env ''routes'') suite_heap
              ''/srv/routes/v1/resource.get.js'' = ''/v1/resource/:id''"
    by (simp_all add: expected_path_def i0 i1 pre suite_listed p0 p1 suite_heap_def descriptor_def)
  from registers_every_eligible_file[OF a l n s dist inj all]
  obtain router where "result (loadRouters suite_env suite_heap ''routes'' suite_options) = Inr router"
    "length router = 2" "map reg_path router = [''/login'', ''/v1/resource/:id'']"
    "registered_files (events (loadRouters suite_env suite_heap ''routes'' suite_options)) =
        [''/srv/routes/user.login.js'', ''/srv/routes/v1/resource.get.js'']"
    by (auto simp: suite_eligible e0 e1)
  then show ?thesis
    using a l n s i0 i1 r0 r1 by (auto simp: suite_eligible list_all_iff)
qed

theorem valid_descriptor_is_not_registered:
  "eligible_files no_options [file_entry ''/srv/routes'' ''user.login.js''] = [login_file] \<and>
   fs_readdir login_env ''/srv/routes'' = Inr [file_entry ''/srv/routes'' ''user.login.js''] \<and>
   import_default login_env login_file = Inr (Obj 0) \<and>
   valid_descriptor (frozen_login_heap 0) \<and>
   result (loadRouters login_env frozen_login_heap ''routes'' no_options) = Inr [] \<and>
   events (loadRouters login_env frozen_login_heap ''routes'' no_options) =
     [Access ''/srv/routes'', Readdir ''/srv/routes'', Import login_file,
      WarnFailed login_file ''TypeError: Cannot assign to read only property''] \<and>
   valid_descriptor (wildcard_heap 0) \<and>
   result (loadRouters login_env wildcard_heap ''routes'' no_options) = Inr [] \<and>
   events (loadRouters login_env wildcard_heap ''routes'' no_options) =
     [Access ''/srv/routes'', Readdir ''/srv/routes'', Import login_file,
      WarnFailed login_file ''Missing parameter name'']"
  by (simp add: eligible_files_def full_path_def name_extension_def valid_descriptor_def
        frozen_login_heap_def wildcard_heap_def loader_simps path_simps example_simps)

end
